theory Spec2Isabelle
  imports Main "HOL-Library.AList"
begin

section \<open>The label-when-approved action\<close>

text \<open>
  The repository holds the action twice: \<^verbatim>\<open>src/index.js\<close> (CommonJS) and
  \<^verbatim>\<open>src/unnamed/part_000\<close> (ES modules). The functions \<^verbatim>\<open>processReviews\<close>,
  \<^verbatim>\<open>setLabel\<close>, \<^verbatim>\<open>removeLabel\<close>, \<^verbatim>\<open>getRequiredEnv\<close> and \<^verbatim>\<open>verboseOutput\<close> are the same
  text in both files, up to the way the toolkit is imported. The files differ in four
  places, and the model takes the file as a parameter of type \<open>source\<close> exactly there:
  \<^item> \<^verbatim>\<open>getReviews\<close>: index.js reads \<^verbatim>\<open>reviews.data.map\<close>, part_000 reads \<^verbatim>\<open>reviews.map\<close>;
  \<^item> \<^verbatim>\<open>addComment\<close>: declared in part_000 only, called in both;
  \<^item> the event test: index.js accepts \<^verbatim>\<open>workflow_dispatch\<close> beside \<^verbatim>\<open>workflow_run\<close>;
  \<^item> the outputs: index.js reads the undeclared \<^verbatim>\<open>isLabelShouldBeSet\<close>.

  What is left out: the \<^verbatim>\<open>core.info\<close> log lines (they change neither control flow nor
  outputs), and the \<^verbatim>\<open>owner\<close>/\<^verbatim>\<open>repo\<close> arguments, which every request of a run repeats
  unchanged.
\<close>

datatype source = Index_js | Part_000

subsection \<open>JavaScript values\<close>

text \<open>
  A JavaScript number as far as the action uses one: the result of \<^verbatim>\<open>parseInt\<close> or a
  pull-request number. \<open>NaN\<close> compares false with everything. Integers are kept exact
  (JavaScript rounds beyond \<open>2^53\<close>; an array length never gets there).
\<close>

datatype jsnum = NaN | Num int

text \<open>\<^verbatim>\<open>length >= n\<close> for an array length and a number.\<close>

fun length_ge :: "nat \<Rightarrow> jsnum \<Rightarrow> bool" where
  "length_ge l NaN = False"
| "length_ge l (Num n) = (n \<le> int l)"

datatype js_error =
    Error string
  | TypeError string
  | ReferenceError string
  | RequestError string

fun message :: "js_error \<Rightarrow> string" where
  "message (Error m) = m"
| "message (TypeError m) = m"
| "message (ReferenceError m) = m"
| "message (RequestError m) = m"

text \<open>\<^verbatim>\<open>String(b)\<close> for a boolean.\<close>

definition String :: "bool \<Rightarrow> string" where
  "String b = (if b then ''true'' else ''false'')"

text \<open>\<^verbatim>\<open>s || d\<close> for a string \<open>s\<close>: the empty string is falsy.\<close>

definition orElse :: "string \<Rightarrow> string \<Rightarrow> string" where
  "orElse s d = (if s = [] then d else s)"

text \<open>
  \<^verbatim>\<open>parseInt(s)\<close> without a radix: leading white space is skipped, then an optional sign,
  then \<^verbatim>\<open>0x\<close>/\<^verbatim>\<open>0X\<close> selects base 16, and the longest run of digits is read; no digit
  gives \<open>NaN\<close>.
\<close>

definition isWhiteSpace :: "char \<Rightarrow> bool" where
  "isWhiteSpace c = (of_char c \<in> {9, 10, 11, 12, 13, 32 :: nat})"

definition digitValue :: "char \<Rightarrow> nat" where
  "digitValue c =
     (let n = (of_char c :: nat)
      in if 48 \<le> n \<and> n \<le> 57 then n - 48
         else if 97 \<le> n \<and> n \<le> 122 then n - 87
         else if 65 \<le> n \<and> n \<le> 90 then n - 55
         else 36)"

definition parseInt :: "string \<Rightarrow> jsnum" where
  "parseInt inputString =
     (let S = dropWhile isWhiteSpace inputString;
          sign = (if S \<noteq> [] \<and> hd S = CHR ''-'' then - 1 else (1 :: int));
          S = (if S \<noteq> [] \<and> (hd S = CHR ''+'' \<or> hd S = CHR ''-'') then tl S else S);
          hex = (take 2 S = ''0x'' \<or> take 2 S = ''0X'');
          R = (if hex then 16 else (10 :: nat));
          S = (if hex then drop 2 S else S);
          Z = takeWhile (\<lambda>c. digitValue c < R) S
      in if Z = [] then NaN
         else Num (sign * int (foldl (\<lambda>a c. a * R + digitValue c) 0 Z)))"

subsection \<open>Data of the hosting API\<close>

text \<open>
  A review as the reviews endpoint returns it: \<^verbatim>\<open>review.user.login\<close> and
  \<^verbatim>\<open>review.state\<close>. The pull request: \<^verbatim>\<open>pullRequest.number\<close> and the names of
  \<^verbatim>\<open>pullRequest.labels\<close>.
\<close>

record user =
  login :: string

record review =
  user :: user
  state :: string

record pull =
  number :: jsnum
  labels :: "string list"

subsection \<open>Effects\<close>

text \<open>
  A run is observed through the requests it sends and the calls it makes to the
  actions toolkit (\<^verbatim>\<open>core.warning\<close>, \<^verbatim>\<open>core.setOutput\<close>, \<^verbatim>\<open>core.setFailed\<close>), in order.
\<close>

datatype request =
    GetPull jsnum
  | ListReviews jsnum
  | GetPermission string
  | AddLabels jsnum string
  | RemoveLabel jsnum string
  | CreateComment jsnum string

datatype effect =
    Request request
  | Warning string
  | SetOutput string string
  | SetFailed string

text \<open>
  What a run reads from outside: the action's inputs (\<^verbatim>\<open>core.getInput\<close> gives the empty
  string for an input that is not set), the process environment, the pull request
  embedded in the event payload (its number, when there is one), and the API's answer
  to each request, an error or the data.
\<close>

record world =
  inputs :: "string \<Rightarrow> string"
  process_env :: "string \<Rightarrow> string option"
  payload_pull_request :: "jsnum option"
  pulls_get :: "jsnum \<Rightarrow> js_error + pull"
  reviews_list :: "jsnum \<Rightarrow> js_error + review list"
  permission_get :: "string \<Rightarrow> js_error + string"
  labels_add :: "jsnum \<Rightarrow> string \<Rightarrow> js_error option"
  labels_remove :: "jsnum \<Rightarrow> string \<Rightarrow> js_error option"
  comments_create :: "jsnum \<Rightarrow> string \<Rightarrow> js_error option"

text \<open>
  An asynchronous computation: the effects it had, and the error it threw (\<open>Inl\<close>)
  or the value it returned (\<open>Inr\<close>). \<open>andThen\<close> is sequencing under \<^verbatim>\<open>await\<close>: after
  an error nothing more runs.
\<close>

type_synonym 'a io = "effect list \<times> (js_error + 'a)"

definition ret :: "'a \<Rightarrow> 'a io" where
  "ret x = ([], Inr x)"

definition throw :: "js_error \<Rightarrow> 'a io" where
  "throw e = ([], Inl e)"

definition andThen :: "'a io \<Rightarrow> ('a \<Rightarrow> 'b io) \<Rightarrow> 'b io" where
  "andThen m f =
     (case m of
        (t, Inl e) \<Rightarrow> (t, Inl e)
      | (t, Inr x) \<Rightarrow> (case f x of (t', r) \<Rightarrow> (t @ t', r)))"

definition unitResult :: "js_error option \<Rightarrow> js_error + unit" where
  "unitResult r = (case r of None \<Rightarrow> Inr () | Some e \<Rightarrow> Inl e)"

subsection \<open>Helpers of the action\<close>

definition getRequiredEnv :: "world \<Rightarrow> string \<Rightarrow> string io" where
  "getRequiredEnv w key =
     (case process_env w key of
        None \<Rightarrow> throw (Error (key @ '' was not defined.''))
      | Some v \<Rightarrow> ret v)"

text \<open>\<^verbatim>\<open>core.getInput(name, { required: true })\<close> throws on an empty value.\<close>

definition getInputRequired :: "world \<Rightarrow> string \<Rightarrow> string io" where
  "getInputRequired w name =
     (if inputs w name = [] then throw (Error (''Input required and not supplied: '' @ name))
      else ret (inputs w name))"

definition verboseOutput :: "string \<Rightarrow> string \<Rightarrow> unit io" where
  "verboseOutput name v = ([SetOutput name v], Inr ())"

definition setLabel :: "world \<Rightarrow> jsnum \<Rightarrow> string \<Rightarrow> unit io" where
  "setLabel w pullRequestNumber label =
     ([Request (AddLabels pullRequestNumber label)],
      unitResult (labels_add w pullRequestNumber label))"

definition removeLabel :: "world \<Rightarrow> jsnum \<Rightarrow> string \<Rightarrow> unit io" where
  "removeLabel w pullRequestNumber label =
     ([Request (RemoveLabel pullRequestNumber label)],
      unitResult (labels_remove w pullRequestNumber label))"

text \<open>
  part_000 declares \<^verbatim>\<open>addComment\<close>; index.js calls it without declaring it, and the
  call throws a ReferenceError.
\<close>

definition addComment :: "source \<Rightarrow> world \<Rightarrow> jsnum \<Rightarrow> string \<Rightarrow> unit io" where
  "addComment v w pullRequestNumber comment =
     (case v of
        Part_000 \<Rightarrow>
          ([Request (CreateComment pullRequestNumber comment)],
           unitResult (comments_create w pullRequestNumber comment))
      | Index_js \<Rightarrow> throw (ReferenceError ''addComment is not defined''))"

subsection \<open>processReviews\<close>

text \<open>
  \<^verbatim>\<open>reviewStates\<close> is a JavaScript object used as a dictionary from login to state. It
  is modelled as an association list in insertion order, a later write to a key
  replacing the value in place. (JavaScript lists keys that look like array indices
  first; only the lengths of \<^verbatim>\<open>approved\<close> and \<^verbatim>\<open>changesRequested\<close> are used, so the
  order has no effect. Keys are GitHub logins, made of letters, digits and hyphens, so
  the one key an object does not store as a property, \<^verbatim>\<open>__proto__\<close>, does not occur.)
\<close>

type_synonym reviewStates = "(string \<times> string) list"

text \<open>The body of the loop over \<^verbatim>\<open>reviews\<close>.\<close>

definition recordReview :: "string list \<Rightarrow> bool \<Rightarrow> reviewStates \<Rightarrow> review \<Rightarrow> reviewStates" where
  "recordReview committers requireCommittersApproval reviewStates review =
     (if state review = ''APPROVED'' \<or> state review = ''CHANGES_REQUESTED'' then
        if requireCommittersApproval \<and> login (user review) \<in> set committers then
          AList.update (login (user review)) (state review) reviewStates
        else if \<not> requireCommittersApproval then
          AList.update (login (user review)) (state review) reviewStates
        else reviewStates
      else reviewStates)"

definition buildReviewStates :: "review list \<Rightarrow> string list \<Rightarrow> bool \<Rightarrow> reviewStates" where
  "buildReviewStates reviews committers requireCommittersApproval =
     foldl (recordReview committers requireCommittersApproval) [] reviews"

text \<open>The second loop over the keys of \<^verbatim>\<open>reviewStates\<close> fills two arrays.\<close>

definition approvedUsers :: "reviewStates \<Rightarrow> string list" where
  "approvedUsers reviewStates = map fst (filter (\<lambda>(u, s). s = ''APPROVED'') reviewStates)"

definition changesRequestedUsers :: "reviewStates \<Rightarrow> string list" where
  "changesRequestedUsers reviewStates =
     map fst (filter (\<lambda>(u, s). s \<noteq> ''APPROVED'' \<and> s = ''CHANGES_REQUESTED'') reviewStates)"

text \<open>The decision at the end of \<^verbatim>\<open>processReviews\<close>, on the finished dictionary.\<close>

definition decide :: "reviewStates \<Rightarrow> jsnum \<Rightarrow> bool" where
  "decide reviewStates numOfApprovals =
     (let approved = approvedUsers reviewStates;
          changesRequested = changesRequestedUsers reviewStates;
          isApproved = False;
          isApproved = (if length_ge (length approved) numOfApprovals then True else isApproved);
          isApproved = (if length changesRequested > 0 then False else isApproved)
      in isApproved)"

definition processReviews :: "review list \<Rightarrow> string list \<Rightarrow> bool \<Rightarrow> jsnum \<Rightarrow> bool" where
  "processReviews reviews committers requireCommittersApproval numOfApprovals =
     decide (buildReviewStates reviews committers requireCommittersApproval) numOfApprovals"

subsection \<open>getReviews\<close>

text \<open>
  The loop \<^verbatim>\<open>for (const reviewer of reviewers)\<close>, carrying \<^verbatim>\<open>reviewersAlreadyChecked\<close>
  and \<^verbatim>\<open>committers\<close>. A failed permission request ends it.
\<close>

fun checkReviewers ::
  "world \<Rightarrow> string list \<Rightarrow> string list \<Rightarrow> string list \<Rightarrow> (string list \<times> string list) io" where
  "checkReviewers w [] reviewersAlreadyChecked committers =
     ret (reviewersAlreadyChecked, committers)"
| "checkReviewers w (reviewer # rest) reviewersAlreadyChecked committers =
     (if reviewer \<notin> set reviewersAlreadyChecked then
        andThen ([Request (GetPermission reviewer)], permission_get w reviewer)
          (\<lambda>permission.
             checkReviewers w rest (reviewersAlreadyChecked @ [reviewer])
               (if permission = ''admin'' \<or> permission = ''write''
                then committers @ [reviewer] else committers))
      else checkReviewers w rest reviewersAlreadyChecked committers)"

text \<open>
  From \<^verbatim>\<open>const reviewersAlreadyChecked = []\<close> to the end of the
  \<^verbatim>\<open>if (requireCommittersApproval)\<close> block: the committers of a list of reviewers.
\<close>

definition collectCommitters :: "world \<Rightarrow> bool \<Rightarrow> string list \<Rightarrow> string list io" where
  "collectCommitters w requireCommittersApproval reviewers =
     (if requireCommittersApproval then
        andThen (checkReviewers w reviewers [] []) (\<lambda>(checked, committers). ret committers)
      else ret [])"

text \<open>
  The line that computes \<^verbatim>\<open>reviewers\<close>. \<^verbatim>\<open>reviews\<close> is the array taken out of the
  response. part_000 maps over it. index.js maps over \<^verbatim>\<open>reviews.data\<close>, which an array
  does not have: on a non-empty array the call of \<^verbatim>\<open>map\<close> on \<^verbatim>\<open>undefined\<close> throws a
  TypeError (the message is Node's).
\<close>

definition mapOfUndefinedMessage :: string where
  "mapOfUndefinedMessage =
     ''Cannot read properties of undefined (reading '' @ [CHR 0x27] @ ''map'' @ [CHR 0x27] @ '')''"

definition reviewersOf :: "source \<Rightarrow> review list \<Rightarrow> string list io" where
  "reviewersOf v reviews =
     (if length reviews > 0 then
        (case v of
           Part_000 \<Rightarrow> ret (map (\<lambda>review. login (user review)) reviews)
         | Index_js \<Rightarrow>
             throw (TypeError mapOfUndefinedMessage))
      else ret [])"

definition getReviews ::
  "source \<Rightarrow> world \<Rightarrow> jsnum \<Rightarrow> bool \<Rightarrow> (review list \<times> string list) io" where
  "getReviews v w pullRequestNumber requireCommittersApproval =
     andThen ([Request (ListReviews pullRequestNumber)], reviews_list w pullRequestNumber)
       (\<lambda>reviews.
     andThen (reviewersOf v reviews)
       (\<lambda>reviewers.
     andThen (collectCommitters w requireCommittersApproval reviewers)
       (\<lambda>committers. ret (reviews, committers))))"

subsection \<open>run\<close>

definition missingNumberWarning :: string where
  "missingNumberWarning =
     ''If action is triggered by \"workflow_run\" then input \"pullRequestNumber\" is required.''
     @ [CHR 0x0A]
     @ ''It might be missing because the pull request might have been already merged or a fixup pushed to''
     @ ''the PR branch. None of the outputs will be set as we cannot find the right PR.''"

definition unsupportedEventMessage :: "string \<Rightarrow> string" where
  "unsupportedEventMessage eventName =
     ''This action is only useful in \"pull_request_review\" or \"workflow_run\" triggered runs and you used it in \"''
     @ eventName @ ''\"''"

text \<open>The event names of the second branch of the event test.\<close>

definition isWorkflowEvent :: "source \<Rightarrow> string \<Rightarrow> bool" where
  "isWorkflowEvent v eventName =
     (case v of
        Part_000 \<Rightarrow> eventName = ''workflow_run''
      | Index_js \<Rightarrow> eventName = ''workflow_run'' \<or> eventName = ''workflow_dispatch'')"

text \<open>
  "Workflow event setup": the pull-request number, or \<open>None\<close> where the source
  returns from \<^verbatim>\<open>run\<close> after the warning.
\<close>

definition eventSetup :: "source \<Rightarrow> world \<Rightarrow> string \<Rightarrow> string \<Rightarrow> jsnum option io" where
  "eventSetup v w eventName pullRequestNumberInput =
     (if eventName = ''pull_request_review'' then
        (case payload_pull_request w of
           None \<Rightarrow> throw (Error ''Could not find PR number from context, exiting'')
         | Some pullRequestNumber \<Rightarrow> ret (Some pullRequestNumber))
      else if isWorkflowEvent v eventName then
        (if pullRequestNumberInput = ''not set'' then ([Warning missingNumberWarning], Inr None)
         else ret (Some (parseInt pullRequestNumberInput)))
      else throw (Error (unsupportedEventMessage eventName)))"

text \<open>"Add or remove the label": the two flags, and the requests they cause.\<close>

definition shouldLabelBeSet :: "string \<Rightarrow> bool \<Rightarrow> string list \<Rightarrow> bool" where
  "shouldLabelBeSet userLabel isApproved labelNames =
     (if userLabel \<noteq> ''not set'' then isApproved \<and> userLabel \<notin> set labelNames else False)"

definition shouldLabelBeRemoved :: "string \<Rightarrow> bool \<Rightarrow> string list \<Rightarrow> bool \<Rightarrow> bool" where
  "shouldLabelBeRemoved userLabel isApproved labelNames removeLabelWhenApprovalMissing =
     (if userLabel \<noteq> ''not set''
      then \<not> isApproved \<and> userLabel \<in> set labelNames \<and> removeLabelWhenApprovalMissing
      else False)"

definition labelActions ::
  "source \<Rightarrow> world \<Rightarrow> jsnum \<Rightarrow> string \<Rightarrow> string \<Rightarrow> bool \<Rightarrow> bool \<Rightarrow> unit io" where
  "labelActions v w pullRequestNumber userLabel comment labelSet labelRemoved =
     (if userLabel \<noteq> ''not set'' then
        if labelSet then
          andThen (setLabel w pullRequestNumber userLabel)
            (\<lambda>_. if comment \<noteq> [] then addComment v w pullRequestNumber comment else ret ())
        else if labelRemoved then removeLabel w pullRequestNumber userLabel
        else ret ()
      else ret ())"

text \<open>
  "Set outputs". In index.js the second call reads \<^verbatim>\<open>isLabelShouldBeSet\<close>, which is
  declared nowhere: evaluating the argument throws a ReferenceError after the first
  output is set.
\<close>

definition setOutputs :: "source \<Rightarrow> bool \<Rightarrow> bool \<Rightarrow> bool \<Rightarrow> unit io" where
  "setOutputs v isApproved labelSet labelRemoved =
     andThen (verboseOutput ''isApproved'' (String isApproved))
       (\<lambda>_.
     (case v of
        Part_000 \<Rightarrow>
          andThen (verboseOutput ''shouldLabelBeSet'' (String labelSet))
            (\<lambda>_. verboseOutput ''shouldLabelBeRemoved'' (String labelRemoved))
      | Index_js \<Rightarrow> throw (ReferenceError ''isLabelShouldBeSet is not defined'')))"

text \<open>The body of the \<^verbatim>\<open>try\<close> block once the pull-request number is known.\<close>

definition labelPullRequest ::
  "source \<Rightarrow> world \<Rightarrow> string \<Rightarrow> bool \<Rightarrow> bool \<Rightarrow> string \<Rightarrow> jsnum \<Rightarrow> jsnum \<Rightarrow> unit io" where
  "labelPullRequest v w userLabel requireCommittersApproval removeLabelWhenApprovalMissing
       comment numOfApprovals pullRequestNumber =
     andThen ([Request (GetPull pullRequestNumber)], pulls_get w pullRequestNumber)
       (\<lambda>pullRequest.
     let labelNames = labels pullRequest in
     andThen (getReviews v w (number pullRequest) requireCommittersApproval)
       (\<lambda>(reviews, committers).
     let isApproved = processReviews reviews committers requireCommittersApproval numOfApprovals;
         labelSet = shouldLabelBeSet userLabel isApproved labelNames;
         labelRemoved =
           shouldLabelBeRemoved userLabel isApproved labelNames removeLabelWhenApprovalMissing in
     andThen (labelActions v w (number pullRequest) userLabel comment labelSet labelRemoved)
       (\<lambda>_. setOutputs v isApproved labelSet labelRemoved)))"

text \<open>
  The constants that \<^verbatim>\<open>run\<close> reads from the inputs in its first lines. Only the read
  of \<^verbatim>\<open>token\<close> can throw; it comes first in \<^verbatim>\<open>run\<close>.
\<close>

definition userLabelOf :: "world \<Rightarrow> string" where
  "userLabelOf w = orElse (inputs w ''label'') ''not set''"

definition requireCommittersApprovalOf :: "world \<Rightarrow> bool" where
  "requireCommittersApprovalOf w = (inputs w ''require_committers_approval'' = ''true'')"

definition removeLabelWhenApprovalMissingOf :: "world \<Rightarrow> bool" where
  "removeLabelWhenApprovalMissingOf w =
     (inputs w ''remove_label_when_approval_missing'' = ''true'')"

definition commentOf :: "world \<Rightarrow> string" where
  "commentOf w = orElse (inputs w ''comment'') []"

definition pullRequestNumberInputOf :: "world \<Rightarrow> string" where
  "pullRequestNumberInputOf w = orElse (inputs w ''pullRequestNumber'') ''not set''"

text \<open>\<^verbatim>\<open>parseInt(core.getInput('numOfApprovals') || 1)\<close>: the number 1 is read as the string "1".\<close>

definition numOfApprovalsOf :: "world \<Rightarrow> jsnum" where
  "numOfApprovalsOf w = parseInt (orElse (inputs w ''numOfApprovals'') ''1'')"

text \<open>\<^verbatim>\<open>try { ... } catch (error) { core.setFailed(error.message) }\<close>\<close>

definition tryCatch :: "unit io \<Rightarrow> unit io" where
  "tryCatch m =
     (case m of
        (t, Inl error) \<Rightarrow> (t @ [SetFailed (message error)], Inr ())
      | (t, Inr x) \<Rightarrow> (t, Inr x))"

definition run :: "source \<Rightarrow> world \<Rightarrow> unit io" where
  "run v w =
     andThen (getInputRequired w ''token'')
       (\<lambda>token.
     andThen (getRequiredEnv w ''GITHUB_REPOSITORY'')
       (\<lambda>repository.
     andThen (getRequiredEnv w ''GITHUB_EVENT_NAME'')
       (\<lambda>eventName.
     tryCatch
       (andThen (eventSetup v w eventName (pullRequestNumberInputOf w))
          (\<lambda>found.
             case found of
               None \<Rightarrow> ret ()
             | Some pullRequestNumber \<Rightarrow>
                 labelPullRequest v w (userLabelOf w) (requireCommittersApprovalOf w)
                   (removeLabelWhenApprovalMissingOf w) (commentOf w) (numOfApprovalsOf w)
                   pullRequestNumber)))))"

text \<open>
  The last statement of the file: \<^verbatim>\<open>run().then(...).catch((e) => core.setFailed(e.message))\<close>.
  The result is everything the run did.
\<close>

definition main :: "source \<Rightarrow> world \<Rightarrow> effect list" where
  "main v w = fst (tryCatch (run v w))"

text \<open>Reading a trace.\<close>

definition outputsOf :: "effect list \<Rightarrow> (string \<times> string) list" where
  "outputsOf t = concat (map (\<lambda>e. case e of SetOutput n x \<Rightarrow> [(n, x)] | _ \<Rightarrow> []) t)"

definition requestsOf :: "effect list \<Rightarrow> request list" where
  "requestsOf t = concat (map (\<lambda>e. case e of Request r \<Rightarrow> [r] | _ \<Rightarrow> []) t)"

definition failuresOf :: "effect list \<Rightarrow> string list" where
  "failuresOf t = concat (map (\<lambda>e. case e of SetFailed m \<Rightarrow> [m] | _ \<Rightarrow> []) t)"

definition warningsOf :: "effect list \<Rightarrow> string list" where
  "warningsOf t = concat (map (\<lambda>e. case e of Warning m \<Rightarrow> [m] | _ \<Rightarrow> []) t)"

subsection \<open>Notions used to state the properties\<close>

text \<open>The states that \<^verbatim>\<open>processReviews\<close> counts, and the counted reviews of one login.\<close>

definition countedState :: "string \<Rightarrow> bool" where
  "countedState s \<longleftrightarrow> s = ''APPROVED'' \<or> s = ''CHANGES_REQUESTED''"

definition countedReviewsOf :: "string \<Rightarrow> review list \<Rightarrow> review list" where
  "countedReviewsOf u reviews =
     filter (\<lambda>r. login (user r) = u \<and> countedState (state r)) reviews"

text \<open>A reviewer the permission endpoint reports as admin or write.\<close>

definition isCommitter :: "world \<Rightarrow> string \<Rightarrow> bool" where
  "isCommitter w reviewer \<longleftrightarrow>
     permission_get w reviewer = Inr ''admin'' \<or> permission_get w reviewer = Inr ''write''"

definition permissionKnown :: "world \<Rightarrow> string \<Rightarrow> bool" where
  "permissionKnown w reviewer \<longleftrightarrow> (case permission_get w reviewer of Inl e \<Rightarrow> False | Inr p \<Rightarrow> True)"

text \<open>
  The configuration of the early return of \<^verbatim>\<open>run\<close>: token and environment present, an
  event of the second branch of the event test, and no pull-request number given.
\<close>

definition softExit :: "source \<Rightarrow> world \<Rightarrow> bool" where
  "softExit v w \<longleftrightarrow>
     inputs w ''token'' \<noteq> [] \<and> process_env w ''GITHUB_REPOSITORY'' \<noteq> None
     \<and> pullRequestNumberInputOf w = ''not set''
     \<and> (case process_env w ''GITHUB_EVENT_NAME'' of
          None \<Rightarrow> False
        | Some e \<Rightarrow> e \<noteq> ''pull_request_review'' \<and> isWorkflowEvent v e)"

text \<open>Kinds of request.\<close>

definition isLabelAction :: "request \<Rightarrow> bool" where
  "isLabelAction r = (case r of AddLabels n l \<Rightarrow> True | RemoveLabel n l \<Rightarrow> True | _ \<Rightarrow> False)"

definition isLabelOrComment :: "request \<Rightarrow> bool" where
  "isLabelOrComment r =
     (case r of AddLabels n l \<Rightarrow> True | RemoveLabel n l \<Rightarrow> True | CreateComment n c \<Rightarrow> True
      | _ \<Rightarrow> False)"

text \<open>
  A world for the examples: pull request 7 of \<^verbatim>\<open>octo/repo\<close> without labels, the given
  inputs, event name and reviews; alice has write permission, everybody else read; no
  request fails.
\<close>

definition exampleWorld :: "(string \<Rightarrow> string) \<Rightarrow> string \<Rightarrow> review list \<Rightarrow> world" where
  "exampleWorld ins eventName reviews =
     \<lparr>inputs = ins,
      process_env = [''GITHUB_REPOSITORY'' \<mapsto> ''octo/repo'', ''GITHUB_EVENT_NAME'' \<mapsto> eventName],
      payload_pull_request = Some (Num 7),
      pulls_get = (\<lambda>n. Inr \<lparr>number = n, labels = []\<rparr>),
      reviews_list = (\<lambda>n. Inr reviews),
      permission_get = (\<lambda>u. Inr (if u = ''alice'' then ''write'' else ''read'')),
      labels_add = (\<lambda>n l. None),
      labels_remove = (\<lambda>n l. None),
      comments_create = (\<lambda>n c. None)\<rparr>"

definition exampleInputs :: "string \<Rightarrow> string \<Rightarrow> string" where
  "exampleInputs label name =
     (if name = ''token'' then ''secret'' else if name = ''label'' then label else [])"

text \<open>A review record, for the examples.\<close>

definition mkReview :: "string \<Rightarrow> string \<Rightarrow> review" where
  "mkReview u s = \<lparr>user = \<lparr>login = u\<rparr>, state = s\<rparr>"


section \<open>Properties of processReviews\<close>


lemma recordReview_keys_distinct:
  "distinct (map fst acc) \<Longrightarrow> distinct (map fst (recordReview committers req acc r))"
  by (simp add: recordReview_def distinct_update)

lemma foldl_recordReview_distinct:
  "distinct (map fst acc) \<Longrightarrow> distinct (map fst (foldl (recordReview committers req) acc rs))"
  by (induction rs arbitrary: acc) (simp_all add: recordReview_keys_distinct)

lemma buildReviewStates_distinct:
  "distinct (map fst (buildReviewStates reviews committers req))"
  by (simp add: buildReviewStates_def foldl_recordReview_distinct)

lemma length_filter_keys_card:
  assumes "distinct (map fst al)"
  shows "length (filter (\<lambda>(u, s). s = x) al) = card {u. map_of al u = Some x}"
proof -
  have d: "distinct (map fst (filter (\<lambda>(u, s). s = x) al))"
    using assms by (simp add: distinct_map_filter)
  have "{u. map_of al u = Some x} = fst ` set (filter (\<lambda>(u, s). s = x) al)"
  proof (intro set_eqI iffI)
    fix u assume "u \<in> {u. map_of al u = Some x}"
    then have "(u, x) \<in> set al" by (auto dest: map_of_SomeD)
    then have "(u, x) \<in> set (filter (\<lambda>(u, s). s = x) al)" by simp
    then show "u \<in> fst ` set (filter (\<lambda>(u, s). s = x) al)" by force
  next
    fix u assume "u \<in> fst ` set (filter (\<lambda>(u, s). s = x) al)"
    then have "(u, x) \<in> set al" by auto
    with assms show "u \<in> {u. map_of al u = Some x}" by simp
  qed
  then have "card {u. map_of al u = Some x} = card (set (map fst (filter (\<lambda>(u, s). s = x) al)))"
    by simp
  also have "\<dots> = length (map fst (filter (\<lambda>(u, s). s = x) al))"
    using d by (rule distinct_card)
  finally show ?thesis by simp
qed

lemma length_approvedUsers:
  "distinct (map fst al) \<Longrightarrow> length (approvedUsers al) = card {u. map_of al u = Some ''APPROVED''}"
  by (simp add: approvedUsers_def length_filter_keys_card)

lemma changesRequested_filter:
  "filter (\<lambda>(u, s). s \<noteq> ''APPROVED'' \<and> s = ''CHANGES_REQUESTED'') al
     = filter (\<lambda>(u, s). s = ''CHANGES_REQUESTED'') al"
  by (rule filter_cong) auto

lemma length_changesRequestedUsers:
  "distinct (map fst al) \<Longrightarrow>
     length (changesRequestedUsers al) = card {u. map_of al u = Some ''CHANGES_REQUESTED''}"
  by (simp add: changesRequestedUsers_def changesRequested_filter length_filter_keys_card)

lemma finite_entries: "finite {u. map_of al u = Some x}"
proof (rule finite_subset)
  show "{u. map_of al u = Some x} \<subseteq> fst ` set al"
    by (force dest: map_of_SomeD)
qed simp

lemma decide_iff:
  "distinct (map fst al) \<Longrightarrow>
   decide al (Num n) \<longleftrightarrow>
     n \<le> int (card {u. map_of al u = Some ''APPROVED''}) \<and>
     card {u. map_of al u = Some ''CHANGES_REQUESTED''} = 0"
proof -
  assume d: "distinct (map fst al)"
  have "decide al (Num n) \<longleftrightarrow>
      n \<le> int (length (approvedUsers al)) \<and> length (changesRequestedUsers al) = 0"
    by (simp add: decide_def Let_def)
  then show ?thesis
    by (simp only: length_approvedUsers [OF d] length_changesRequestedUsers [OF d])
qed

lemma map_of_recordReview:
  "map_of (recordReview committers req acc r) =
     (if countedState (state r) \<and> (\<not> req \<or> login (user r) \<in> set committers)
      then (map_of acc)(login (user r) \<mapsto> state r) else map_of acc)"
  by (auto simp: recordReview_def countedState_def update_conv')

lemma map_of_foldl_recordReview:
  assumes "\<not> req \<or> u \<in> set committers"
  shows "map_of (foldl (recordReview committers req) acc rs) u =
           (if countedReviewsOf u rs = [] then map_of acc u
            else Some (state (last (countedReviewsOf u rs))))"
proof (induction rs rule: rev_induct)
  case Nil
  show ?case by (simp add: countedReviewsOf_def)
next
  case (snoc r rs)
  show ?case
  proof (cases "login (user r) = u \<and> countedState (state r)")
    case True
    then have "countedReviewsOf u (rs @ [r]) = countedReviewsOf u rs @ [r]"
      by (simp add: countedReviewsOf_def)
    moreover have "map_of (foldl (recordReview committers req) acc (rs @ [r])) u = Some (state r)"
      using True assms by (simp add: map_of_recordReview)
    ultimately show ?thesis
      by simp
  next
    case False
    then have "countedReviewsOf u (rs @ [r]) = countedReviewsOf u rs"
      by (auto simp: countedReviewsOf_def)
    moreover have "map_of (foldl (recordReview committers req) acc (rs @ [r])) u
        = map_of (foldl (recordReview committers req) acc rs) u"
      using False by (auto simp: map_of_recordReview)
    ultimately show ?thesis
      using snoc.IH by simp
  qed
qed

lemma map_of_foldl_recordReview_dropped:
  assumes "req" "u \<notin> set committers"
  shows "map_of (foldl (recordReview committers req) acc rs) u = map_of acc u"
  using assms by (induction rs rule: rev_induct) (auto simp: map_of_recordReview)

lemma approvedUsers_entry:
  "u \<in> set (approvedUsers al) \<Longrightarrow> u \<in> dom (map_of al)"
proof -
  assume "u \<in> set (approvedUsers al)"
  then have "(u, ''APPROVED'') \<in> set al" by (auto simp: approvedUsers_def)
  then have "u \<in> fst ` set al" by (rule rev_image_eqI) simp
  then show ?thesis by (simp add: dom_map_of_conv_image_fst)
qed

lemma changesRequestedUsers_entry:
  "u \<in> set (changesRequestedUsers al) \<Longrightarrow> u \<in> dom (map_of al)"
proof -
  assume "u \<in> set (changesRequestedUsers al)"
  then have "(u, ''CHANGES_REQUESTED'') \<in> set al" by (auto simp: changesRequestedUsers_def)
  then have "u \<in> fst ` set al" by (rule rev_image_eqI) simp
  then show ?thesis by (simp add: dom_map_of_conv_image_fst)
qed

text \<open>
  Claim C1. For every review list, committer list and integer threshold \<open>n\<close> (positive or
  not), \<^verbatim>\<open>processReviews\<close> returns true exactly when the dictionary it built has at least
  \<open>n\<close> logins in state APPROVED and no login in state CHANGES_REQUESTED. One login in
  state CHANGES_REQUESTED makes the result false whatever the number of approvals.
\<close>

theorem processReviews_decision: 
  "(processReviews reviews committers req (Num n) \<longleftrightarrow>
      n \<le> int (card {u. map_of (buildReviewStates reviews committers req) u = Some ''APPROVED''}) \<and>
      card {u. map_of (buildReviewStates reviews committers req) u = Some ''CHANGES_REQUESTED''} = 0)
   \<and> (map_of (buildReviewStates reviews committers req) u = Some ''CHANGES_REQUESTED''
        \<longrightarrow> \<not> processReviews reviews committers req (Num n))"
proof -
  let ?m = "map_of (buildReviewStates reviews committers req)"
  have iff: "processReviews reviews committers req (Num n) \<longleftrightarrow>
      n \<le> int (card {u. ?m u = Some ''APPROVED''}) \<and> card {u. ?m u = Some ''CHANGES_REQUESTED''} = 0"
    unfolding processReviews_def by (rule decide_iff) (rule buildReviewStates_distinct)
  have "card {u. ?m u = Some ''CHANGES_REQUESTED''} \<noteq> 0" if "?m u = Some ''CHANGES_REQUESTED''"
  proof -
    have "u \<in> {u. ?m u = Some ''CHANGES_REQUESTED''}" using that by simp
    then have "{u. ?m u = Some ''CHANGES_REQUESTED''} \<noteq> {}" by blast
    then show ?thesis by (simp add: finite_entries)
  qed
  with iff show ?thesis by simp
qed


lemma map_of_buildReviewStates:
  "map_of (buildReviewStates reviews committers req) u =
     (if (\<not> req \<or> u \<in> set committers) \<and> countedReviewsOf u reviews \<noteq> []
      then Some (state (last (countedReviewsOf u reviews))) else None)"
proof (cases "\<not> req \<or> u \<in> set committers")
  case True
  then show ?thesis
    unfolding buildReviewStates_def by (simp add: map_of_foldl_recordReview)
next
  case False
  then show ?thesis
    unfolding buildReviewStates_def by (simp add: map_of_foldl_recordReview_dropped)
qed

text \<open>
  Claim C3. The dictionary built by the loop of \<^verbatim>\<open>processReviews\<close> has one entry per login,
  and for a login whose reviews are counted (committer filtering off, or the login is a
  committer) the entry is the state of the last review of that login, among its reviews
  in state APPROVED or CHANGES_REQUESTED; there is no entry when it has no such review.
  So APPROVED then CHANGES_REQUESTED leaves CHANGES_REQUESTED, and the other order
  leaves APPROVED.
\<close>

theorem latest_state_wins:
  "distinct (map fst (buildReviewStates reviews committers req))
   \<and> ((\<not> req \<or> u \<in> set committers) \<longrightarrow>
        map_of (buildReviewStates reviews committers req) u =
          (if countedReviewsOf u reviews = [] then None
           else Some (state (last (countedReviewsOf u reviews)))))"
  by (simp add: buildReviewStates_distinct map_of_buildReviewStates)

theorem latest_state_wins_witness:
  "map_of (buildReviewStates
       [mkReview ''alice'' ''APPROVED'', mkReview ''alice'' ''CHANGES_REQUESTED''] [] False) ''alice''
     = Some ''CHANGES_REQUESTED''
   \<and> map_of (buildReviewStates
       [mkReview ''alice'' ''CHANGES_REQUESTED'', mkReview ''alice'' ''APPROVED''] [] False) ''alice''
     = Some ''APPROVED''"
  using latest_state_wins [of "[mkReview ''alice'' ''APPROVED'', mkReview ''alice'' ''CHANGES_REQUESTED'']" "[]" False "''alice''"]
        latest_state_wins [of "[mkReview ''alice'' ''CHANGES_REQUESTED'', mkReview ''alice'' ''APPROVED'']" "[]" False "''alice''"]
  by (simp add: countedReviewsOf_def countedState_def mkReview_def)

text \<open>
  Claim C4. With \<^verbatim>\<open>requireCommittersApproval\<close> true, a login outside \<^verbatim>\<open>committers\<close> has no
  entry in the dictionary and is in neither \<^verbatim>\<open>approved\<close> nor \<^verbatim>\<open>changesRequested\<close>, whatever
  its reviews say. With the flag false, the loop body writes every review in state
  APPROVED or CHANGES_REQUESTED into the dictionary, and the author of every such review
  has an entry at the end.
\<close>

theorem committer_filtering:
  "(req \<longrightarrow> u \<notin> set committers \<longrightarrow>
      map_of (buildReviewStates reviews committers req) u = None
      \<and> u \<notin> set (approvedUsers (buildReviewStates reviews committers req))
      \<and> u \<notin> set (changesRequestedUsers (buildReviewStates reviews committers req)))
   \<and> (\<not> req \<longrightarrow> countedState (state r) \<longrightarrow>
        recordReview committers req acc r = AList.update (login (user r)) (state r) acc)
   \<and> (\<not> req \<longrightarrow> r \<in> set reviews \<longrightarrow> countedState (state r) \<longrightarrow>
        login (user r) \<in> dom (map_of (buildReviewStates reviews committers req)))"
proof (intro conjI impI)
  let ?rs = "buildReviewStates reviews committers req"
  assume a: "req" "u \<notin> set committers"
  then show none: "map_of ?rs u = None"
    by (simp add: map_of_buildReviewStates)
  then have "u \<notin> dom (map_of ?rs)" by (simp add: domIff)
  then show "u \<notin> set (approvedUsers ?rs)" "u \<notin> set (changesRequestedUsers ?rs)"
    using approvedUsers_entry changesRequestedUsers_entry by blast+
next
  assume "\<not> req" "countedState (state r)"
  then show "recordReview committers req acc r = AList.update (login (user r)) (state r) acc"
    by (simp add: recordReview_def countedState_def)
next
  assume a: "\<not> req" "r \<in> set reviews" "countedState (state r)"
  then have "r \<in> set (countedReviewsOf (login (user r)) reviews)"
    by (simp add: countedReviewsOf_def)
  then have "countedReviewsOf (login (user r)) reviews \<noteq> []" by auto
  with a(1) show "login (user r) \<in> dom (map_of (buildReviewStates reviews committers req))"
    by (simp add: map_of_buildReviewStates domIff)
qed

text \<open>
  Claim C10. With a threshold that is zero or negative, \<^verbatim>\<open>processReviews\<close> returns true
  exactly when no login is in state CHANGES_REQUESTED; on the empty review list it returns
  true.
\<close>

theorem nonpositive_threshold:
  assumes "n \<le> 0"
  shows "(processReviews reviews committers req (Num n) \<longleftrightarrow>
           (\<forall>u. map_of (buildReviewStates reviews committers req) u \<noteq> Some ''CHANGES_REQUESTED''))
         \<and> processReviews [] committers req (Num n)"
proof -
  have fin: "finite {u. map_of al u = Some ''CHANGES_REQUESTED''}" for al :: reviewStates
    by (rule finite_entries)
  have d: "decide al (Num n) \<longleftrightarrow> (\<forall>u. map_of al u \<noteq> Some ''CHANGES_REQUESTED'')"
    if "distinct (map fst al)" for al
  proof -
    have "n \<le> int (card {u. map_of al u = Some ''APPROVED''})" using assms by simp
    then have "decide al (Num n) \<longleftrightarrow> card {u. map_of al u = Some ''CHANGES_REQUESTED''} = 0"
      using decide_iff [OF that, of n] by simp
    also have "\<dots> \<longleftrightarrow> {u. map_of al u = Some ''CHANGES_REQUESTED''} = {}"
      using fin [of al] by simp
    finally show ?thesis by blast
  qed
  have "processReviews reviews committers req (Num n) \<longleftrightarrow>
           (\<forall>u. map_of (buildReviewStates reviews committers req) u \<noteq> Some ''CHANGES_REQUESTED'')"
    unfolding processReviews_def by (rule d) (rule buildReviewStates_distinct)
  moreover have "processReviews [] committers req (Num n)"
    unfolding processReviews_def using d [of "[]"] by (simp add: buildReviewStates_def)
  ultimately show ?thesis by simp
qed

text \<open>The thresholds that \<^verbatim>\<open>run\<close> parses from the inputs "0", "-1", "2" and "two".\<close>

lemma parseInt_examples:
  "parseInt ''0'' = Num 0" "parseInt ''-1'' = Num (- 1)" "parseInt ''2'' = Num 2"
  "parseInt ''two'' = NaN"
  by (simp_all add: parseInt_def digitValue_def isWhiteSpace_def Let_def)

theorem nonpositive_threshold_witness:
  "processReviews [] [] False (parseInt ''0'')
   \<and> processReviews [mkReview ''alice'' ''COMMENTED''] [] False (parseInt ''-1'')"
proof -
  have "\<forall>u. map_of (buildReviewStates [mkReview ''alice'' ''COMMENTED''] [] False) u
           \<noteq> Some ''CHANGES_REQUESTED''"
    by (simp add: buildReviewStates_def recordReview_def mkReview_def)
  moreover have a: "(0::int) \<le> 0" and b: "(- 1 :: int) \<le> 0" by simp_all
  ultimately show ?thesis
    using nonpositive_threshold [OF a, of "[]" "[]" False]
          nonpositive_threshold [OF b, of "[mkReview ''alice'' ''COMMENTED'']" "[]" False]
    unfolding parseInt_examples by blast
qed

theorem processReviews_decision_witness:
  "\<not> processReviews [mkReview ''alice'' ''APPROVED'', mkReview ''bob'' ''CHANGES_REQUESTED'']
        [] False (Num 1)"
proof -
  have "map_of (buildReviewStates
           [mkReview ''alice'' ''APPROVED'', mkReview ''bob'' ''CHANGES_REQUESTED''] [] False) ''bob''
          = Some ''CHANGES_REQUESTED''"
    by (simp add: buildReviewStates_def recordReview_def mkReview_def)
  then show ?thesis
    using processReviews_decision [of "[mkReview ''alice'' ''APPROVED'', mkReview ''bob'' ''CHANGES_REQUESTED'']"
                 "[]" False 1 "''bob''"]
    by blast
qed

theorem committer_filtering_witness:
  "map_of (buildReviewStates [mkReview ''mallory'' ''APPROVED''] [''alice''] True) ''mallory'' = None
   \<and> ''mallory'' \<notin> set (approvedUsers (buildReviewStates [mkReview ''mallory'' ''APPROVED''] [''alice''] True))
   \<and> ''mallory'' \<in> dom (map_of (buildReviewStates [mkReview ''mallory'' ''APPROVED''] [''alice''] False))"
  using committer_filtering [of True "''mallory''" "[''alice'']" "[mkReview ''mallory'' ''APPROVED'']"]
        committer_filtering [where req = False and r = "mkReview ''mallory'' ''APPROVED''"
              and reviews = "[mkReview ''mallory'' ''APPROVED'']"]
  by (simp add: countedState_def mkReview_def)

section \<open>Traces\<close>

lemma fst_andThen [simp]:
  "fst (andThen m f) = fst m @ (case snd m of Inl e \<Rightarrow> [] | Inr x \<Rightarrow> fst (f x))"
  by (simp add: andThen_def split: prod.splits sum.splits)

lemma snd_andThen [simp]:
  "snd (andThen m f) = (case snd m of Inl e \<Rightarrow> Inl e | Inr x \<Rightarrow> snd (f x))"
  by (simp add: andThen_def split: prod.splits sum.splits)

lemma ret_simps [simp]: "fst (ret x) = []" "snd (ret x) = Inr x"
  by (simp_all add: ret_def)

lemma throw_simps [simp]: "fst (throw e) = []" "snd (throw e) = Inl e"
  by (simp_all add: throw_def)

lemma fst_tryCatch [simp]:
  "fst (tryCatch m) = fst m @ (case snd m of Inl e \<Rightarrow> [SetFailed (message e)] | Inr x \<Rightarrow> [])"
  by (simp add: tryCatch_def split: prod.splits sum.splits)

lemma snd_tryCatch [simp]: "snd (tryCatch m) = Inr ()"
  by (simp add: tryCatch_def split: prod.splits sum.splits)

lemma requestsOf_simps [simp]:
  "requestsOf [] = []"
  "requestsOf (a @ b) = requestsOf a @ requestsOf b"
  "requestsOf (Request r # t) = r # requestsOf t"
  "requestsOf (Warning m # t) = requestsOf t"
  "requestsOf (SetOutput n x # t) = requestsOf t"
  "requestsOf (SetFailed m # t) = requestsOf t"
  by (simp_all add: requestsOf_def)

lemma outputsOf_simps [simp]:
  "outputsOf [] = []"
  "outputsOf (a @ b) = outputsOf a @ outputsOf b"
  "outputsOf (Request r # t) = outputsOf t"
  "outputsOf (Warning m # t) = outputsOf t"
  "outputsOf (SetOutput n x # t) = (n, x) # outputsOf t"
  "outputsOf (SetFailed m # t) = outputsOf t"
  by (simp_all add: outputsOf_def)

lemma failuresOf_simps [simp]:
  "failuresOf [] = []"
  "failuresOf (a @ b) = failuresOf a @ failuresOf b"
  "failuresOf (Request r # t) = failuresOf t"
  "failuresOf (Warning m # t) = failuresOf t"
  "failuresOf (SetOutput n x # t) = failuresOf t"
  "failuresOf (SetFailed m # t) = m # failuresOf t"
  by (simp_all add: failuresOf_def)

lemma warningsOf_simps [simp]:
  "warningsOf [] = []"
  "warningsOf (a @ b) = warningsOf a @ warningsOf b"
  "warningsOf (Request r # t) = warningsOf t"
  "warningsOf (Warning m # t) = m # warningsOf t"
  "warningsOf (SetOutput n x # t) = warningsOf t"
  "warningsOf (SetFailed m # t) = warningsOf t"
  by (simp_all add: warningsOf_def)

section \<open>Properties of getReviews\<close>

lemma permissionKnown_iff: "permissionKnown w r \<longleftrightarrow> (\<exists>p. permission_get w r = Inr p)"
  by (simp add: permissionKnown_def split: sum.splits)

lemma checkReviewers_trace:
  "\<exists>xs. fst (checkReviewers w rs checked cs) = map (\<lambda>u. Request (GetPermission u)) xs
        \<and> distinct xs \<and> set xs \<subseteq> set rs - set checked"
proof (induction rs arbitrary: checked cs)
  case Nil
  show ?case by simp
next
  case (Cons r rs)
  show ?case
  proof (cases "r \<in> set checked")
    case True
    from Cons.IH [of checked cs] obtain xs where
      "fst (checkReviewers w rs checked cs) = map (\<lambda>u. Request (GetPermission u)) xs"
      "distinct xs" "set xs \<subseteq> set rs - set checked" by blast
    with True show ?thesis by auto
  next
    case False
    show ?thesis
    proof (cases "permission_get w r")
      case (Inl e)
      with False have "fst (checkReviewers w (r # rs) checked cs)
          = map (\<lambda>u. Request (GetPermission u)) [r]" by simp
      moreover have "distinct [r]" "set [r] \<subseteq> set (r # rs) - set checked"
        using False by simp_all
      ultimately show ?thesis by blast
    next
      case (Inr p)
      let ?cs = "if p = ''admin'' \<or> p = ''write'' then cs @ [r] else cs"
      from Cons.IH [of "checked @ [r]" ?cs] obtain xs where xs:
        "fst (checkReviewers w rs (checked @ [r]) ?cs) = map (\<lambda>u. Request (GetPermission u)) xs"
        "distinct xs" "set xs \<subseteq> set rs - set (checked @ [r])" by blast
      from False Inr xs(1) have "fst (checkReviewers w (r # rs) checked cs)
          = map (\<lambda>u. Request (GetPermission u)) (r # xs)" by simp
      moreover have "distinct (r # xs)" "set (r # xs) \<subseteq> set (r # rs) - set checked"
        using xs(2,3) False by auto
      ultimately show ?thesis by blast
    qed
  qed
qed

lemma checkReviewers_result:
  assumes "\<forall>r\<in>set rs. permissionKnown w r"
  shows "\<exists>checked' cs'. snd (checkReviewers w rs checked cs) = Inr (checked', cs')
       \<and> set checked' = set checked \<union> set rs
       \<and> set cs' = set cs \<union> {r \<in> set rs. r \<notin> set checked \<and> isCommitter w r}
       \<and> (distinct cs \<longrightarrow> set cs \<subseteq> set checked \<longrightarrow> distinct cs')
       \<and> set (requestsOf (fst (checkReviewers w rs checked cs)))
           = GetPermission ` (set rs - set checked)"
  using assms
proof (induction rs arbitrary: checked cs)
  case Nil
  show ?case by simp
next
  case (Cons r rs)
  then have known: "\<forall>r\<in>set rs. permissionKnown w r" and kr: "permissionKnown w r" by simp_all
  show ?case
  proof (cases "r \<in> set checked")
    case True
    from Cons.IH [OF known, of checked cs] obtain checked' cs' where
      "snd (checkReviewers w rs checked cs) = Inr (checked', cs')"
      "set checked' = set checked \<union> set rs"
      "set cs' = set cs \<union> {r \<in> set rs. r \<notin> set checked \<and> isCommitter w r}"
      "distinct cs \<longrightarrow> set cs \<subseteq> set checked \<longrightarrow> distinct cs'"
      "set (requestsOf (fst (checkReviewers w rs checked cs))) = GetPermission ` (set rs - set checked)"
      by blast
    with True show ?thesis by auto
  next
    case False
    from kr obtain p where p: "permission_get w r = Inr p"
      by (auto simp: permissionKnown_iff)
    let ?cs = "if p = ''admin'' \<or> p = ''write'' then cs @ [r] else cs"
    have com: "isCommitter w r \<longleftrightarrow> p = ''admin'' \<or> p = ''write''"
      using p by (simp add: isCommitter_def)
    from Cons.IH [OF known, of "checked @ [r]" ?cs] obtain checked' cs' where ih:
      "snd (checkReviewers w rs (checked @ [r]) ?cs) = Inr (checked', cs')"
      "set checked' = set (checked @ [r]) \<union> set rs"
      "set cs' = set ?cs \<union> {x \<in> set rs. x \<notin> set (checked @ [r]) \<and> isCommitter w x}"
      "distinct ?cs \<longrightarrow> set ?cs \<subseteq> set (checked @ [r]) \<longrightarrow> distinct cs'"
      "set (requestsOf (fst (checkReviewers w rs (checked @ [r]) ?cs)))
         = GetPermission ` (set rs - set (checked @ [r]))"
      by blast
    have 1: "snd (checkReviewers w (r # rs) checked cs) = Inr (checked', cs')"
      using False p ih(1) by simp
    have 2: "set checked' = set checked \<union> set (r # rs)"
      using ih(2) by auto
    have 3: "set cs' = set cs \<union> {x \<in> set (r # rs). x \<notin> set checked \<and> isCommitter w x}"
      using ih(3) False com by auto
    have 4: "distinct cs \<longrightarrow> set cs \<subseteq> set checked \<longrightarrow> distinct cs'"
    proof (intro impI)
      assume d: "distinct cs" and s: "set cs \<subseteq> set checked"
      then have "r \<notin> set cs" using False by auto
      with d s have "distinct ?cs" "set ?cs \<subseteq> set (checked @ [r])" by auto
      with ih(4) show "distinct cs'" by blast
    qed
    have 5: "set (requestsOf (fst (checkReviewers w (r # rs) checked cs)))
           = GetPermission ` (set (r # rs) - set checked)"
      using False p ih(5) by auto
    from 1 2 3 4 5 show ?thesis by blast
  qed
qed


lemma collectCommitters_off: "collectCommitters w False reviewers = ([], Inr [])"
  by (simp add: collectCommitters_def ret_def)

lemma fst_collectCommitters:
  "fst (collectCommitters w req rs) = (if req then fst (checkReviewers w rs [] []) else [])"
  by (simp add: collectCommitters_def split: sum.splits prod.splits)

lemma snd_collectCommitters:
  "snd (collectCommitters w req rs) =
     (if req then (case snd (checkReviewers w rs [] []) of Inl e \<Rightarrow> Inl e
                   | Inr (checked, cs) \<Rightarrow> Inr cs)
      else Inr [])"
  by (simp add: collectCommitters_def split: sum.splits prod.splits)

lemma collectCommitters_trace:
  "\<exists>xs. fst (collectCommitters w req rs) = map (\<lambda>u. Request (GetPermission u)) xs
        \<and> distinct xs \<and> set xs \<subseteq> set rs"
proof (cases req)
  case True
  from checkReviewers_trace [of w rs "[]" "[]"] obtain xs where
    "fst (checkReviewers w rs [] []) = map (\<lambda>u. Request (GetPermission u)) xs"
    "distinct xs" "set xs \<subseteq> set rs" by auto
  with True show ?thesis by (auto simp: fst_collectCommitters)
next
  case False
  then have "fst (collectCommitters w req rs) = map (\<lambda>u. Request (GetPermission u)) []"
    by (simp add: fst_collectCommitters)
  then show ?thesis by force
qed

lemma requestsOf_map_Request [simp]: "requestsOf (map Request rs) = rs"
  by (induction rs) simp_all

lemma requestsOf_map_GetPermission [simp]:
  "requestsOf (map (\<lambda>u. Request (GetPermission u)) xs) = map GetPermission xs"
  by (induction xs) simp_all

lemma quiet_map_Request [simp]:
  "outputsOf (map (\<lambda>u. Request (f u)) xs) = []"
  "failuresOf (map (\<lambda>u. Request (f u)) xs) = []"
  "warningsOf (map (\<lambda>u. Request (f u)) xs) = []"
  by (induction xs) simp_all

lemma collectCommitters_result:
  assumes "\<forall>r\<in>set rs. permissionKnown w r"
  shows "\<exists>committers. snd (collectCommitters w True rs) = Inr committers
       \<and> distinct committers
       \<and> set committers = {r \<in> set rs. isCommitter w r}
       \<and> set (requestsOf (fst (collectCommitters w True rs))) = GetPermission ` set rs"
proof -
  from checkReviewers_result [OF assms, of "[]" "[]"] obtain checked' cs' where
    "snd (checkReviewers w rs [] []) = Inr (checked', cs')"
    "set cs' = {r \<in> set rs. isCommitter w r}"
    "distinct cs'"
    "set (requestsOf (fst (checkReviewers w rs [] []))) = GetPermission ` set rs"
    by auto
  then show ?thesis
    by (simp add: fst_collectCommitters snd_collectCommitters)
qed

lemma getReviews_trace:
  "\<exists>xs. fst (getReviews v w n req)
          = Request (ListReviews n) # map (\<lambda>u. Request (GetPermission u)) xs
        \<and> distinct xs"
proof (cases "reviews_list w n")
  case (Inl e)
  then have "fst (getReviews v w n req)
      = Request (ListReviews n) # map (\<lambda>u. Request (GetPermission u)) []"
    by (simp add: getReviews_def)
  then show ?thesis by force
next
  case (Inr reviews)
  show ?thesis
  proof (cases "snd (reviewersOf v reviews)")
    case (Inl e)
    have "fst (reviewersOf v reviews) = []"
      by (simp add: reviewersOf_def split: source.splits)
    with Inl \<open>reviews_list w n = Inr reviews\<close> have "fst (getReviews v w n req)
        = Request (ListReviews n) # map (\<lambda>u. Request (GetPermission u)) []"
      by (simp add: getReviews_def)
    then show ?thesis by force
  next
    case (Inr reviewers)
    have "fst (reviewersOf v reviews) = []"
      by (simp add: reviewersOf_def split: source.splits)
    moreover from collectCommitters_trace [of w req reviewers] obtain xs where
      "fst (collectCommitters w req reviewers) = map (\<lambda>u. Request (GetPermission u)) xs"
      "distinct xs" by blast
    ultimately have "fst (getReviews v w n req)
        = Request (ListReviews n) # map (\<lambda>u. Request (GetPermission u)) xs \<and> distinct xs"
      using Inr \<open>reviews_list w n = Inr reviews\<close>
      by (simp add: getReviews_def split: sum.splits)
    then show ?thesis by blast
  qed
qed

lemma getReviews_index_nonempty:
  assumes "reviews_list w n = Inr reviews" "reviews \<noteq> []"
  shows "getReviews Index_js w n req = ([Request (ListReviews n)], Inl (TypeError mapOfUndefinedMessage))"
  using assms by (simp add: getReviews_def reviewersOf_def andThen_def throw_def)

lemma getReviews_part000_off:
  assumes "reviews_list w n = Inr reviews"
  shows "getReviews Part_000 w n False = ([Request (ListReviews n)], Inr (reviews, []))"
  using assms
  by (simp add: getReviews_def reviewersOf_def andThen_def throw_def ret_def collectCommitters_def)

lemma getReviews_part000_on:
  assumes "reviews_list w n = Inr reviews"
    and "\<forall>r\<in>set reviews. permissionKnown w (login (user r))"
  shows "\<exists>committers. snd (getReviews Part_000 w n True) = Inr (reviews, committers)
      \<and> distinct committers
      \<and> set committers = {u \<in> (\<lambda>r. login (user r)) ` set reviews. isCommitter w u}"
proof -
  let ?rs = "map (\<lambda>r. login (user r)) reviews"
  have r: "reviewersOf Part_000 reviews = ret ?rs"
    by (cases reviews) (simp_all add: reviewersOf_def)
  have "\<forall>r\<in>set ?rs. permissionKnown w r" using assms(2) by simp
  from collectCommitters_result [OF this] obtain committers where
    "snd (collectCommitters w True ?rs) = Inr committers" "distinct committers"
    "set committers = {r \<in> set ?rs. isCommitter w r}" by blast
  then show ?thesis
    using assms(1) r by (simp add: getReviews_def)
qed


section \<open>Properties of run\<close>

lemma labelActions_trace:
  "\<exists>ls. fst (labelActions v w n l c s r) = map Request ls
     \<and> (ls = [] \<or> ls = [AddLabels n l] \<or> ls = [AddLabels n l, CreateComment n c]
          \<or> ls = [RemoveLabel n l])
     \<and> (l = ''not set'' \<longrightarrow> ls = [])
     \<and> (AddLabels n l \<in> set ls \<longrightarrow> s)
     \<and> (RemoveLabel n l \<in> set ls \<longrightarrow> r \<and> \<not> s)"
proof -
  consider (off) "l = ''not set''" | (set) "l \<noteq> ''not set''" "s"
    | (rem) "l \<noteq> ''not set''" "\<not> s" "r" | (none) "l \<noteq> ''not set''" "\<not> s" "\<not> r"
    by blast
  then show ?thesis
  proof cases
    case off
    then have "fst (labelActions v w n l c s r) = map Request []"
      by (simp add: labelActions_def)
    with off show ?thesis by force
  next
    case set
    show ?thesis
    proof (cases "labels_add w n l = None \<and> c \<noteq> [] \<and> v = Part_000")
      case True
      with set have "fst (labelActions v w n l c s r) = map Request [AddLabels n l, CreateComment n c]"
        by (simp add: labelActions_def setLabel_def addComment_def unitResult_def)
      with set show ?thesis by force
    next
      case False
      with set have "fst (labelActions v w n l c s r) = map Request [AddLabels n l]"
        by (cases v; cases "labels_add w n l")
           (auto simp: labelActions_def setLabel_def addComment_def unitResult_def)
      with set show ?thesis by force
    qed
  next
    case rem
    then have "fst (labelActions v w n l c s r) = map Request [RemoveLabel n l]"
      by (simp add: labelActions_def removeLabel_def)
    with rem show ?thesis by force
  next
    case none
    then have "fst (labelActions v w n l c s r) = map Request []"
      by (simp add: labelActions_def)
    with none show ?thesis by force
  qed
qed

lemma fst_setOutputs:
  "fst (setOutputs v a s r) =
     (case v of
        Part_000 \<Rightarrow> [SetOutput ''isApproved'' (String a), SetOutput ''shouldLabelBeSet'' (String s),
                     SetOutput ''shouldLabelBeRemoved'' (String r)]
      | Index_js \<Rightarrow> [SetOutput ''isApproved'' (String a)])"
  by (simp add: setOutputs_def verboseOutput_def split: source.splits)

lemma snd_setOutputs:
  "snd (setOutputs v a s r) =
     (case v of Part_000 \<Rightarrow> Inr ()
      | Index_js \<Rightarrow> Inl (ReferenceError ''isLabelShouldBeSet is not defined''))"
  by (simp add: setOutputs_def verboseOutput_def split: source.splits)

lemma fst_eventSetup:
  "fst (eventSetup v w e i) =
     (if e \<noteq> ''pull_request_review'' \<and> isWorkflowEvent v e \<and> i = ''not set''
      then [Warning missingNumberWarning] else [])"
  by (simp add: eventSetup_def split: option.splits)

lemma snd_eventSetup_None:
  "snd (eventSetup v w e i) = Inr None \<longleftrightarrow>
     e \<noteq> ''pull_request_review'' \<and> isWorkflowEvent v e \<and> i = ''not set''"
  by (simp add: eventSetup_def split: option.splits)

text \<open>The trace of labelPullRequest: a fetch, the reviews, the label actions, the outputs.\<close>

lemma labelPullRequest_trace:
  "\<exists>pre xs ls post n.
      fst (labelPullRequest v w l req rm c num pr)
        = pre @ map (\<lambda>u. Request (GetPermission u)) xs @ map Request ls @ map (\<lambda>(k, x). SetOutput k x) post
      \<and> (pre = [Request (GetPull pr)] \<or> pre = [Request (GetPull pr), Request (ListReviews n)])
      \<and> distinct xs
      \<and> (ls = [] \<or> ls = [AddLabels n l] \<or> ls = [AddLabels n l, CreateComment n c]
          \<or> ls = [RemoveLabel n l])
      \<and> (l = ''not set'' \<longrightarrow> ls = [])"
proof (cases "pulls_get w pr")
  case (Inl e)
  then have "fst (labelPullRequest v w l req rm c num pr)
     = [Request (GetPull pr)] @ map (\<lambda>u. Request (GetPermission u)) [] @ map Request []
        @ map (\<lambda>(k, x). SetOutput k x) []"
    by (simp add: labelPullRequest_def)
  then show ?thesis by (intro exI conjI) (assumption | simp)+
next
  case (Inr p)
  let ?n = "number p"
  from getReviews_trace [of v w ?n req] obtain xs where xs:
    "fst (getReviews v w ?n req) = Request (ListReviews ?n) # map (\<lambda>u. Request (GetPermission u)) xs"
    "distinct xs" by blast
  show ?thesis
  proof (cases "snd (getReviews v w ?n req)")
    case (Inl e)
    with Inr xs have "fst (labelPullRequest v w l req rm c num pr)
       = [Request (GetPull pr), Request (ListReviews ?n)] @ map (\<lambda>u. Request (GetPermission u)) xs
          @ map Request [] @ map (\<lambda>(k, x). SetOutput k x) []"
      by (simp add: labelPullRequest_def Let_def)
    with xs(2) show ?thesis by (intro exI conjI) (assumption | simp)+
  next
    case inr: (Inr rc)
    obtain reviews committers where rc: "rc = (reviews, committers)" by (cases rc)
    let ?a = "processReviews reviews committers req num"
    let ?s = "shouldLabelBeSet l ?a (labels p)"
    let ?r = "shouldLabelBeRemoved l ?a (labels p) rm"
    from labelActions_trace [of v w ?n l c ?s ?r] obtain ls where ls:
      "fst (labelActions v w ?n l c ?s ?r) = map Request ls"
      "ls = [] \<or> ls = [AddLabels ?n l] \<or> ls = [AddLabels ?n l, CreateComment ?n c]
          \<or> ls = [RemoveLabel ?n l]"
      "l = ''not set'' \<longrightarrow> ls = []" by blast
    obtain post where post: "(case snd (labelActions v w ?n l c ?s ?r) of Inl e \<Rightarrow> []
         | Inr u \<Rightarrow> fst (setOutputs v ?a ?s ?r)) = map (\<lambda>(k, x). SetOutput k x) post"
    proof (cases "snd (labelActions v w ?n l c ?s ?r)")
      case (Inl e)
      then have "(case snd (labelActions v w ?n l c ?s ?r) of Inl e \<Rightarrow> []
         | Inr u \<Rightarrow> fst (setOutputs v ?a ?s ?r)) = map (\<lambda>(k, x). SetOutput k x) []" by simp
      then show ?thesis by (rule that)
    next
      case (Inr u)
      show ?thesis
      proof (cases v)
        case Index_js
        with Inr have "(case snd (labelActions v w ?n l c ?s ?r) of Inl e \<Rightarrow> []
         | Inr u \<Rightarrow> fst (setOutputs v ?a ?s ?r))
           = map (\<lambda>(k, x). SetOutput k x) [(''isApproved'', String ?a)]"
          by (simp add: fst_setOutputs)
        then show ?thesis by (rule that)
      next
        case Part_000
        with Inr have "(case snd (labelActions v w ?n l c ?s ?r) of Inl e \<Rightarrow> []
         | Inr u \<Rightarrow> fst (setOutputs v ?a ?s ?r))
           = map (\<lambda>(k, x). SetOutput k x) [(''isApproved'', String ?a),
               (''shouldLabelBeSet'', String ?s), (''shouldLabelBeRemoved'', String ?r)]"
          by (simp add: fst_setOutputs)
        then show ?thesis by (rule that)
      qed
    qed
    from Inr inr rc xs(1) ls(1) post have "fst (labelPullRequest v w l req rm c num pr)
       = [Request (GetPull pr), Request (ListReviews ?n)] @ map (\<lambda>u. Request (GetPermission u)) xs
          @ map Request ls @ map (\<lambda>(k, x). SetOutput k x) post"
      by (simp add: labelPullRequest_def Let_def)
    with xs(2) ls(2,3) show ?thesis by (intro exI conjI) (assumption | simp)+
  qed
qed


lemma quiet_requests [simp]:
  "outputsOf (map Request ls) = []"
  "failuresOf (map Request ls) = []"
  "warningsOf (map Request ls) = []"
  by (induction ls) simp_all

lemma getReviews_quiet [simp]:
  "outputsOf (fst (getReviews v w n req)) = []"
  "failuresOf (fst (getReviews v w n req)) = []"
  "warningsOf (fst (getReviews v w n req)) = []"
  using getReviews_trace [of v w n req] by auto

lemma labelActions_quiet [simp]:
  "outputsOf (fst (labelActions v w n l c s r)) = []"
  "failuresOf (fst (labelActions v w n l c s r)) = []"
  "warningsOf (fst (labelActions v w n l c s r)) = []"
  using labelActions_trace [of v w n l c s r] by auto

lemma setOutputs_quiet [simp]:
  "failuresOf (fst (setOutputs v a s r)) = []"
  "warningsOf (fst (setOutputs v a s r)) = []"
  "requestsOf (fst (setOutputs v a s r)) = []"
  by (simp_all add: fst_setOutputs split: source.splits)

lemma labelPullRequest_quiet [simp]:
  "failuresOf (fst (labelPullRequest v w l req rm c num pr)) = []"
  "warningsOf (fst (labelPullRequest v w l req rm c num pr)) = []"
  by (simp_all add: labelPullRequest_def Let_def split: sum.splits prod.splits)

lemma labelPullRequest_part000_outcome:
  "(\<exists>e. snd (labelPullRequest Part_000 w l req rm c num pr) = Inl e
        \<and> outputsOf (fst (labelPullRequest Part_000 w l req rm c num pr)) = [])
   \<or> (\<exists>a names. snd (labelPullRequest Part_000 w l req rm c num pr) = Inr ()
        \<and> outputsOf (fst (labelPullRequest Part_000 w l req rm c num pr))
            = [(''isApproved'', String a),
               (''shouldLabelBeSet'', String (shouldLabelBeSet l a names)),
               (''shouldLabelBeRemoved'', String (shouldLabelBeRemoved l a names rm))])"
  by (auto simp: labelPullRequest_def Let_def fst_setOutputs snd_setOutputs
           split: sum.splits prod.splits)

lemma labelPullRequest_index_outcome:
  "(\<exists>e. snd (labelPullRequest Index_js w l req rm c num pr) = Inl e)
   \<and> length (outputsOf (fst (labelPullRequest Index_js w l req rm c num pr))) \<le> 1"
  by (auto simp: labelPullRequest_def Let_def fst_setOutputs snd_setOutputs
           split: sum.splits prod.splits)

lemma main_unconfigured:
  assumes "inputs w ''token'' = [] \<or> process_env w ''GITHUB_REPOSITORY'' = None
           \<or> process_env w ''GITHUB_EVENT_NAME'' = None"
  shows "\<exists>m. main v w = [SetFailed m]"
  using assms
  by (auto simp: main_def run_def getInputRequired_def getRequiredEnv_def split: option.splits)

lemma main_configured:
  assumes "inputs w ''token'' \<noteq> []" "process_env w ''GITHUB_REPOSITORY'' = Some repository"
     "process_env w ''GITHUB_EVENT_NAME'' = Some eventName"
  shows "main v w =
     fst (tryCatch
       (andThen (eventSetup v w eventName (pullRequestNumberInputOf w))
          (\<lambda>found.
             case found of
               None \<Rightarrow> ret ()
             | Some pullRequestNumber \<Rightarrow>
                 labelPullRequest v w (userLabelOf w) (requireCommittersApprovalOf w)
                   (removeLabelWhenApprovalMissingOf w) (commentOf w) (numOfApprovalsOf w)
                   pullRequestNumber)))"
  using assms
  by (simp add: main_def run_def getInputRequired_def getRequiredEnv_def del: fst_tryCatch fst_andThen)
     (simp add: tryCatch_def andThen_def ret_def split: prod.splits sum.splits)


lemma requestsOf_map_SetOutput [simp]:
  "requestsOf (map (\<lambda>(k, x). SetOutput k x) post) = []"
  by (induction post) auto

lemma main_requests:
  "\<exists>pre xs ls n pr.
      requestsOf (main v w) = pre @ map GetPermission xs @ ls
      \<and> (pre = [] \<or> pre = [GetPull pr] \<or> pre = [GetPull pr, ListReviews n])
      \<and> distinct xs
      \<and> (ls = [] \<or> ls = [AddLabels n (userLabelOf w)]
          \<or> ls = [AddLabels n (userLabelOf w), CreateComment n (commentOf w)]
          \<or> ls = [RemoveLabel n (userLabelOf w)])
      \<and> (userLabelOf w = ''not set'' \<longrightarrow> ls = [])"
proof -
  have none: ?thesis if "requestsOf (main v w) = []"
  proof -
    from that have "requestsOf (main v w) = [] @ map GetPermission [] @ []" by simp
    then show ?thesis by (intro exI conjI) (assumption | simp)+
  qed
  show ?thesis
  proof (cases "inputs w ''token'' = [] \<or> process_env w ''GITHUB_REPOSITORY'' = None
           \<or> process_env w ''GITHUB_EVENT_NAME'' = None")
    case True
    from main_unconfigured [OF this, of v] obtain m where "main v w = [SetFailed m]" by blast
    then have "requestsOf (main v w) = []" by simp
    then show ?thesis by (rule none)
  next
    case False
    then obtain repository eventName where cfg: "inputs w ''token'' \<noteq> []"
      "process_env w ''GITHUB_REPOSITORY'' = Some repository"
      "process_env w ''GITHUB_EVENT_NAME'' = Some eventName" by auto
    note m = main_configured [OF cfg, of v]
    have quiet: "requestsOf (fst (eventSetup v w eventName (pullRequestNumberInputOf w))) = []"
      by (simp add: fst_eventSetup)
    show ?thesis
    proof (cases "snd (eventSetup v w eventName (pullRequestNumberInputOf w))")
      case (Inl e)
      with m quiet have "requestsOf (main v w) = []" by simp
      then show ?thesis by (rule none)
    next
      case (Inr found)
      show ?thesis
      proof (cases found)
        case None
        with Inr m quiet have "requestsOf (main v w) = []" by simp
        then show ?thesis by (rule none)
      next
        case (Some pr)
        let ?l = "labelPullRequest v w (userLabelOf w) (requireCommittersApprovalOf w)
                   (removeLabelWhenApprovalMissingOf w) (commentOf w) (numOfApprovalsOf w) pr"
        from Some Inr m quiet have "requestsOf (main v w) = requestsOf (fst ?l)"
          by (simp split: sum.splits)
        moreover from labelPullRequest_trace [of v w "userLabelOf w" "requireCommittersApprovalOf w"
            "removeLabelWhenApprovalMissingOf w" "commentOf w" "numOfApprovalsOf w" pr]
        obtain pre xs ls post n where t:
          "fst ?l = pre @ map (\<lambda>u. Request (GetPermission u)) xs @ map Request ls
                      @ map (\<lambda>(k, x). SetOutput k x) post"
          "pre = [Request (GetPull pr)] \<or> pre = [Request (GetPull pr), Request (ListReviews n)]"
          "distinct xs"
          "ls = [] \<or> ls = [AddLabels n (userLabelOf w)]
            \<or> ls = [AddLabels n (userLabelOf w), CreateComment n (commentOf w)]
            \<or> ls = [RemoveLabel n (userLabelOf w)]"
          "userLabelOf w = ''not set'' \<longrightarrow> ls = []" by blast
        ultimately have "requestsOf (main v w) = requestsOf pre @ map GetPermission xs @ ls"
          by simp
        moreover have "requestsOf pre = [GetPull pr] \<or> requestsOf pre = [GetPull pr, ListReviews n]"
          using t(2) by auto
        ultimately show ?thesis using t(3,4,5)
          by blast
      qed
    qed
  qed
qed

lemma count_list_GetPermission:
  "count_list (map GetPermission xs) (GetPermission u) = count_list xs u"
  by (induction xs) simp_all

lemma distinct_count_list: "distinct xs \<Longrightarrow> count_list xs u \<le> 1"
  by (induction xs) (auto simp: count_list_0_iff)

lemma count_list_map_GetPermission:
  "distinct xs \<Longrightarrow> count_list (map GetPermission xs) (GetPermission u) \<le> 1"
  using distinct_count_list [of xs u] by (simp add: count_list_GetPermission)

lemma main_permission_once: "count_list (requestsOf (main v w)) (GetPermission u) \<le> 1"
proof -
  from main_requests [of v w] obtain pre xs ls n pr where t:
    "requestsOf (main v w) = pre @ map GetPermission xs @ ls"
    "pre = [] \<or> pre = [GetPull pr] \<or> pre = [GetPull pr, ListReviews n]"
    "distinct xs"
    "ls = [] \<or> ls = [AddLabels n (userLabelOf w)]
          \<or> ls = [AddLabels n (userLabelOf w), CreateComment n (commentOf w)]
          \<or> ls = [RemoveLabel n (userLabelOf w)]" by blast
  have "count_list pre (GetPermission u) = 0" using t(2) by auto
  moreover have "count_list ls (GetPermission u) = 0" using t(4) by auto
  ultimately show ?thesis
    using count_list_map_GetPermission [OF t(3), of u] by (simp add: t(1))
qed

lemma filter_isLabelAction_GetPermission [simp]:
  "filter isLabelAction (map GetPermission xs) = []"
  "filter isLabelOrComment (map GetPermission xs) = []"
  by (induction xs) (simp_all add: isLabelAction_def isLabelOrComment_def)

lemma main_one_label_action: "length (filter isLabelAction (requestsOf (main v w))) \<le> 1"
proof -
  from main_requests [of v w] obtain pre xs ls n pr where t:
    "requestsOf (main v w) = pre @ map GetPermission xs @ ls"
    "pre = [] \<or> pre = [GetPull pr] \<or> pre = [GetPull pr, ListReviews n]"
    "ls = [] \<or> ls = [AddLabels n (userLabelOf w)]
          \<or> ls = [AddLabels n (userLabelOf w), CreateComment n (commentOf w)]
          \<or> ls = [RemoveLabel n (userLabelOf w)]" by blast
  have "filter isLabelAction pre = []" using t(2) by (auto simp: isLabelAction_def)
  moreover have "length (filter isLabelAction ls) \<le> 1" using t(3) by (auto simp: isLabelAction_def)
  ultimately show ?thesis by (simp add: t(1))
qed

lemma main_no_label_requests:
  assumes "userLabelOf w = ''not set''"
  shows "filter isLabelOrComment (requestsOf (main v w)) = []"
proof -
  from main_requests [of v w] obtain pre xs ls n pr where t:
    "requestsOf (main v w) = pre @ map GetPermission xs @ ls"
    "pre = [] \<or> pre = [GetPull pr] \<or> pre = [GetPull pr, ListReviews n]"
    "userLabelOf w = ''not set'' \<longrightarrow> ls = []" by blast
  have "filter isLabelOrComment pre = []" using t(2) by (auto simp: isLabelOrComment_def)
  with assms t(3) show ?thesis by (simp add: t(1))
qed


lemmas run_defs = main_def run_def tryCatch_def andThen_def ret_def throw_def getInputRequired_def
      getRequiredEnv_def exampleWorld_def exampleInputs_def eventSetup_def labelPullRequest_def
      getReviews_def reviewersOf_def collectCommitters_def processReviews_def decide_def
      buildReviewStates_def recordReview_def approvedUsers_def changesRequestedUsers_def
      numOfApprovalsOf_def
      parseInt_def orElse_def digitValue_def isWhiteSpace_def userLabelOf_def commentOf_def
      requireCommittersApprovalOf_def removeLabelWhenApprovalMissingOf_def pullRequestNumberInputOf_def
      shouldLabelBeSet_def shouldLabelBeRemoved_def labelActions_def setOutputs_def verboseOutput_def
      setLabel_def removeLabel_def addComment_def unitResult_def isWorkflowEvent_def
      String_def Let_def mkReview_def

text \<open>
  Claim C2. In index.js \<^verbatim>\<open>getReviews\<close> does not extract the reviewers of a non-empty review
  list: on the list holding one approving review of alice it throws the TypeError of
  \<^verbatim>\<open>reviews.data.map\<close> right after the request, and the run ends in \<^verbatim>\<open>setFailed\<close>. The same
  call in part_000 returns the reviews (with no committers, the filter being off).
\<close>

theorem getReviews_index_throws:
  "getReviews Index_js
      (exampleWorld (exampleInputs ''approved'') ''pull_request_review'' [mkReview ''alice'' ''APPROVED''])
      (Num 7) False
     = ([Request (ListReviews (Num 7))], Inl (TypeError mapOfUndefinedMessage))
   \<and> getReviews Part_000
      (exampleWorld (exampleInputs ''approved'') ''pull_request_review'' [mkReview ''alice'' ''APPROVED''])
      (Num 7) False
     = ([Request (ListReviews (Num 7))], Inr ([mkReview ''alice'' ''APPROVED''], []))
   \<and> main Index_js
      (exampleWorld (exampleInputs ''approved'') ''pull_request_review'' [mkReview ''alice'' ''APPROVED''])
     = [Request (GetPull (Num 7)), Request (ListReviews (Num 7)), SetFailed mapOfUndefinedMessage]"
  by (simp add: run_defs)

text \<open>
  Claim C5. In index.js a run that reaches the outputs sets \<^verbatim>\<open>isApproved\<close> only and then
  fails on the undeclared \<^verbatim>\<open>isLabelShouldBeSet\<close>: on pull request 7 without reviews its
  trace is two requests, one output and \<^verbatim>\<open>setFailed\<close>. The same run of part_000 sets the
  three outputs \<^verbatim>\<open>isApproved\<close>, \<^verbatim>\<open>shouldLabelBeSet\<close> and \<^verbatim>\<open>shouldLabelBeRemoved\<close>.
\<close>

theorem index_outputs_incomplete:
  "main Index_js (exampleWorld (exampleInputs ''approved'') ''pull_request_review'' [])
     = [Request (GetPull (Num 7)), Request (ListReviews (Num 7)),
        SetOutput ''isApproved'' ''false'', SetFailed ''isLabelShouldBeSet is not defined'']
   \<and> main Part_000 (exampleWorld (exampleInputs ''approved'') ''pull_request_review'' [])
     = [Request (GetPull (Num 7)), Request (ListReviews (Num 7)),
        SetOutput ''isApproved'' ''false'', SetOutput ''shouldLabelBeSet'' ''false'',
        SetOutput ''shouldLabelBeRemoved'' ''false'']"
  by (simp add: run_defs)

lemma labelPullRequest_index_outputs:
  "outputsOf (fst (labelPullRequest Index_js w l req rm c num pr)) = []
   \<or> (\<exists>a. outputsOf (fst (labelPullRequest Index_js w l req rm c num pr))
            = [(''isApproved'', String a)])"
  by (auto simp: labelPullRequest_def Let_def fst_setOutputs snd_setOutputs
           split: sum.splits prod.splits)

text \<open>A run fails before the event is known, or leaves after the warning, or goes on to the pull request.\<close>

lemma main_decompose:
  "(\<exists>m. main v w = [SetFailed m]
        \<and> \<not> softExit v w)
   \<or> (main v w = [Warning missingNumberWarning]
      \<and> softExit v w)
   \<or> (\<exists>pr. main v w
          = fst (labelPullRequest v w (userLabelOf w) (requireCommittersApprovalOf w)
                  (removeLabelWhenApprovalMissingOf w) (commentOf w) (numOfApprovalsOf w) pr)
            @ (case snd (labelPullRequest v w (userLabelOf w) (requireCommittersApprovalOf w)
                  (removeLabelWhenApprovalMissingOf w) (commentOf w) (numOfApprovalsOf w) pr) of
                 Inl e \<Rightarrow> [SetFailed (message e)] | Inr x \<Rightarrow> [])
        \<and> \<not> softExit v w)"
  (is "?early \<or> ?soft \<or> ?go")
proof (cases "inputs w ''token'' = [] \<or> process_env w ''GITHUB_REPOSITORY'' = None
           \<or> process_env w ''GITHUB_EVENT_NAME'' = None")
  case True
  from main_unconfigured [OF this, of v] obtain m where "main v w = [SetFailed m]" by blast
  with True have ?early by (auto simp: softExit_def)
  then show ?thesis by blast
next
  case False
  then obtain repository eventName where cfg: "inputs w ''token'' \<noteq> []"
    "process_env w ''GITHUB_REPOSITORY'' = Some repository"
    "process_env w ''GITHUB_EVENT_NAME'' = Some eventName" by auto
  note m = main_configured [OF cfg, of v]
  let ?e = "eventSetup v w eventName (pullRequestNumberInputOf w)"
  note none = snd_eventSetup_None [of v w eventName "pullRequestNumberInputOf w"]
  show ?thesis
  proof (cases "snd ?e")
    case (Inl e)
    then have n: "\<not> (eventName \<noteq> ''pull_request_review'' \<and> isWorkflowEvent v eventName
         \<and> pullRequestNumberInputOf w = ''not set'')" using none by auto
    then have "fst ?e = []" by (auto simp: fst_eventSetup)
    with Inl m have "main v w = [SetFailed (message e)]" by simp
    with n cfg have ?early by (auto simp: softExit_def)
    then show ?thesis by blast
  next
    case (Inr found)
    show ?thesis
    proof (cases found)
      case None
      with Inr none have c: "eventName \<noteq> ''pull_request_review''" "isWorkflowEvent v eventName"
          "pullRequestNumberInputOf w = ''not set''" by simp_all
      then have "fst ?e = [Warning missingNumberWarning]" by (simp add: fst_eventSetup)
      with None Inr m have "main v w = [Warning missingNumberWarning]" by simp
      with c cfg have ?soft by (simp add: softExit_def)
      then show ?thesis by blast
    next
      case (Some pr)
      with Inr have n: "\<not> (eventName \<noteq> ''pull_request_review'' \<and> isWorkflowEvent v eventName
         \<and> pullRequestNumberInputOf w = ''not set'')" using none by auto
      then have e: "fst ?e = []" by (auto simp: fst_eventSetup)
      from Some Inr m e have "main v w
          = fst (labelPullRequest v w (userLabelOf w) (requireCommittersApprovalOf w)
                  (removeLabelWhenApprovalMissingOf w) (commentOf w) (numOfApprovalsOf w) pr)
            @ (case snd (labelPullRequest v w (userLabelOf w) (requireCommittersApprovalOf w)
                  (removeLabelWhenApprovalMissingOf w) (commentOf w) (numOfApprovalsOf w) pr) of
                 Inl e \<Rightarrow> [SetFailed (message e)] | Inr x \<Rightarrow> [])"
        by simp
      with n cfg have ?go by (auto simp: softExit_def)
      then show ?thesis by blast
    qed
  qed
qed

lemma main_index_kinds:
  "(main Index_js w = [Warning missingNumberWarning]
      \<and> softExit Index_js w)
   \<or> (failuresOf (main Index_js w) \<noteq> [] \<and> warningsOf (main Index_js w) = []
        \<and> (outputsOf (main Index_js w) = []
            \<or> (\<exists>a. outputsOf (main Index_js w) = [(''isApproved'', String a)]))
        \<and> \<not> softExit Index_js w)"
  (is "?soft \<or> ?failed")
proof -
  from main_decompose [of Index_js w]
  consider (early) m where "main Index_js w = [SetFailed m]"
       "\<not> softExit Index_js w"
    | (soft) "?soft"
    | (go) pr where "main Index_js w
          = fst (labelPullRequest Index_js w (userLabelOf w) (requireCommittersApprovalOf w)
                  (removeLabelWhenApprovalMissingOf w) (commentOf w) (numOfApprovalsOf w) pr)
            @ (case snd (labelPullRequest Index_js w (userLabelOf w) (requireCommittersApprovalOf w)
                  (removeLabelWhenApprovalMissingOf w) (commentOf w) (numOfApprovalsOf w) pr) of
                 Inl e \<Rightarrow> [SetFailed (message e)] | Inr x \<Rightarrow> [])"
       "\<not> softExit Index_js w"
    by blast
  then show ?thesis
  proof cases
    case early
    then have ?failed by simp
    then show ?thesis by blast
  next
    case soft
    then show ?thesis by blast
  next
    case go
    let ?l = "labelPullRequest Index_js w (userLabelOf w) (requireCommittersApprovalOf w)
                  (removeLabelWhenApprovalMissingOf w) (commentOf w) (numOfApprovalsOf w) pr"
    from labelPullRequest_index_outcome [of w "userLabelOf w" "requireCommittersApprovalOf w"
            "removeLabelWhenApprovalMissingOf w" "commentOf w" "numOfApprovalsOf w" pr]
    obtain err where err: "snd ?l = Inl err" by auto
    have "failuresOf (main Index_js w) \<noteq> []" "warningsOf (main Index_js w) = []"
       "outputsOf (main Index_js w) = outputsOf (fst ?l)"
      using err by (simp_all add: go(1))
    with labelPullRequest_index_outputs [of w "userLabelOf w"
            "requireCommittersApprovalOf w" "removeLabelWhenApprovalMissingOf w" "commentOf w"
            "numOfApprovalsOf w" pr] go(2)
    have ?failed by simp
    then show ?thesis by blast
  qed
qed

lemma main_part000_kinds:
  "(main Part_000 w = [Warning missingNumberWarning]
      \<and> softExit Part_000 w)
   \<or> (failuresOf (main Part_000 w) \<noteq> [] \<and> warningsOf (main Part_000 w) = []
        \<and> outputsOf (main Part_000 w) = []
        \<and> \<not> softExit Part_000 w)
   \<or> (failuresOf (main Part_000 w) = [] \<and> warningsOf (main Part_000 w) = []
        \<and> (\<exists>a names. outputsOf (main Part_000 w)
            = [(''isApproved'', String a),
               (''shouldLabelBeSet'', String (shouldLabelBeSet (userLabelOf w) a names)),
               (''shouldLabelBeRemoved'',
                  String (shouldLabelBeRemoved (userLabelOf w) a names
                            (removeLabelWhenApprovalMissingOf w)))])
        \<and> \<not> softExit Part_000 w)"
  (is "?soft \<or> ?failed \<or> ?complete")
proof -
  from main_decompose [of Part_000 w]
  consider (early) m where "main Part_000 w = [SetFailed m]"
       "\<not> softExit Part_000 w"
    | (soft) "?soft"
    | (go) pr where "main Part_000 w
          = fst (labelPullRequest Part_000 w (userLabelOf w) (requireCommittersApprovalOf w)
                  (removeLabelWhenApprovalMissingOf w) (commentOf w) (numOfApprovalsOf w) pr)
            @ (case snd (labelPullRequest Part_000 w (userLabelOf w) (requireCommittersApprovalOf w)
                  (removeLabelWhenApprovalMissingOf w) (commentOf w) (numOfApprovalsOf w) pr) of
                 Inl e \<Rightarrow> [SetFailed (message e)] | Inr x \<Rightarrow> [])"
       "\<not> softExit Part_000 w"
    by blast
  then show ?thesis
  proof cases
    case early
    then have ?failed by simp
    then show ?thesis by blast
  next
    case soft
    then show ?thesis by blast
  next
    case go
    let ?l = "labelPullRequest Part_000 w (userLabelOf w) (requireCommittersApprovalOf w)
                  (removeLabelWhenApprovalMissingOf w) (commentOf w) (numOfApprovalsOf w) pr"
    from labelPullRequest_part000_outcome [of w "userLabelOf w" "requireCommittersApprovalOf w"
            "removeLabelWhenApprovalMissingOf w" "commentOf w" "numOfApprovalsOf w" pr]
    consider (fail) err where "snd ?l = Inl err" "outputsOf (fst ?l) = []"
      | (ok) a names where "snd ?l = Inr ()"
            "outputsOf (fst ?l) = [(''isApproved'', String a),
               (''shouldLabelBeSet'', String (shouldLabelBeSet (userLabelOf w) a names)),
               (''shouldLabelBeRemoved'',
                  String (shouldLabelBeRemoved (userLabelOf w) a names
                            (removeLabelWhenApprovalMissingOf w)))]"
      by blast
    then show ?thesis
    proof cases
      case fail
      then have "failuresOf (main Part_000 w) \<noteq> []" "warningsOf (main Part_000 w) = []"
         "outputsOf (main Part_000 w) = []"
        by (simp_all add: go(1))
      with go(2) have ?failed by simp
      then show ?thesis by blast
    next
      case ok
      then have "failuresOf (main Part_000 w) = []" "warningsOf (main Part_000 w) = []"
         "outputsOf (main Part_000 w) = [(''isApproved'', String a),
               (''shouldLabelBeSet'', String (shouldLabelBeSet (userLabelOf w) a names)),
               (''shouldLabelBeRemoved'',
                  String (shouldLabelBeRemoved (userLabelOf w) a names
                            (removeLabelWhenApprovalMissingOf w)))]"
        by (simp_all add: go(1))
      with go(2) have ?complete by blast
      then show ?thesis by blast
    qed
  qed
qed


lemma pullRequestNumberInputOf_not_set:
  "pullRequestNumberInputOf w = ''not set'' \<longleftrightarrow>
     inputs w ''pullRequestNumber'' = [] \<or> inputs w ''pullRequestNumber'' = ''not set''"
  by (simp add: pullRequestNumberInputOf_def orElse_def)

lemma userLabelOf_not_set:
  "userLabelOf w = ''not set'' \<longleftrightarrow> inputs w ''label'' = [] \<or> inputs w ''label'' = ''not set''"
  by (simp add: userLabelOf_def orElse_def)

lemma softExit_part000:
  "softExit Part_000 w \<longleftrightarrow>
     inputs w ''token'' \<noteq> [] \<and> process_env w ''GITHUB_REPOSITORY'' \<noteq> None
     \<and> process_env w ''GITHUB_EVENT_NAME'' = Some ''workflow_run''
     \<and> (inputs w ''pullRequestNumber'' = [] \<or> inputs w ''pullRequestNumber'' = ''not set'')"
  by (auto simp: softExit_def isWorkflowEvent_def pullRequestNumberInputOf_not_set
      split: option.splits)

lemma softExit_index:
  "softExit Index_js w \<longleftrightarrow>
     inputs w ''token'' \<noteq> [] \<and> process_env w ''GITHUB_REPOSITORY'' \<noteq> None
     \<and> (process_env w ''GITHUB_EVENT_NAME'' = Some ''workflow_run''
        \<or> process_env w ''GITHUB_EVENT_NAME'' = Some ''workflow_dispatch'')
     \<and> (inputs w ''pullRequestNumber'' = [] \<or> inputs w ''pullRequestNumber'' = ''not set'')"
  by (auto simp: softExit_def isWorkflowEvent_def pullRequestNumberInputOf_not_set
      split: option.splits)

lemma soft_exit_iff_part000:
  "failuresOf (main Part_000 w) = [] \<and> length (outputsOf (main Part_000 w)) < 3
     \<longleftrightarrow> softExit Part_000 w"
  using main_part000_kinds [of w] by auto

lemma soft_exit_iff_index:
  "failuresOf (main Index_js w) = [] \<and> length (outputsOf (main Index_js w)) < 3
     \<longleftrightarrow> softExit Index_js w"
  using main_index_kinds [of w] by auto

lemma soft_exit_run:
  assumes "inputs w ''token'' \<noteq> []" "process_env w ''GITHUB_REPOSITORY'' \<noteq> None"
    "process_env w ''GITHUB_EVENT_NAME'' = Some ''workflow_run''"
    "inputs w ''pullRequestNumber'' = []"
  shows "main v w = [Warning missingNumberWarning]"
proof -
  from assms(2) obtain r where "process_env w ''GITHUB_REPOSITORY'' = Some r" by auto
  from main_configured [OF assms(1) this assms(3), of v] assms(4) show ?thesis
    by (cases v)
       (simp_all add: eventSetup_def isWorkflowEvent_def pullRequestNumberInputOf_def orElse_def
          tryCatch_def andThen_def ret_def)
qed

lemma unsupported_event_run:
  assumes "inputs w ''token'' \<noteq> []" "process_env w ''GITHUB_REPOSITORY'' \<noteq> None"
    "process_env w ''GITHUB_EVENT_NAME'' = Some e"
    "e \<noteq> ''pull_request_review''" "e \<noteq> ''workflow_run''"
    "v = Index_js \<longrightarrow> e \<noteq> ''workflow_dispatch''"
  shows "main v w = [SetFailed (unsupportedEventMessage e)]"
proof -
  from assms(2) obtain r where "process_env w ''GITHUB_REPOSITORY'' = Some r" by auto
  from main_configured [OF assms(1) this assms(3), of v] assms(4,5,6) show ?thesis
    by (cases v)
       (simp_all add: eventSetup_def isWorkflowEvent_def tryCatch_def andThen_def throw_def)
qed

text \<open>
  Claim C8. With token and repository present, the event \<^verbatim>\<open>workflow_run\<close> and no
  \<^verbatim>\<open>pullRequestNumber\<close> input, the run of either file consists of the warning alone: no
  \<^verbatim>\<open>setFailed\<close>, no output. It is the only way to end without failure and without the
  three outputs: in part_000 exactly for \<^verbatim>\<open>workflow_run\<close> with the input empty or "not set";
  in index.js for \<^verbatim>\<open>workflow_run\<close> or \<^verbatim>\<open>workflow_dispatch\<close>, which its event test treats
  alike. Every event name outside the event test ends the run with \<^verbatim>\<open>setFailed\<close> and the
  message about the unsupported event.
\<close>

theorem soft_exit_only:
  "(inputs w ''token'' \<noteq> [] \<longrightarrow> process_env w ''GITHUB_REPOSITORY'' \<noteq> None \<longrightarrow>
      process_env w ''GITHUB_EVENT_NAME'' = Some ''workflow_run'' \<longrightarrow>
      inputs w ''pullRequestNumber'' = [] \<longrightarrow>
        main v w = [Warning missingNumberWarning])
   \<and> (failuresOf (main Part_000 w) = [] \<and> length (outputsOf (main Part_000 w)) < 3
        \<longleftrightarrow> inputs w ''token'' \<noteq> [] \<and> process_env w ''GITHUB_REPOSITORY'' \<noteq> None
            \<and> process_env w ''GITHUB_EVENT_NAME'' = Some ''workflow_run''
            \<and> (inputs w ''pullRequestNumber'' = [] \<or> inputs w ''pullRequestNumber'' = ''not set''))
   \<and> (failuresOf (main Index_js w) = [] \<and> length (outputsOf (main Index_js w)) < 3
        \<longleftrightarrow> inputs w ''token'' \<noteq> [] \<and> process_env w ''GITHUB_REPOSITORY'' \<noteq> None
            \<and> (process_env w ''GITHUB_EVENT_NAME'' = Some ''workflow_run''
                \<or> process_env w ''GITHUB_EVENT_NAME'' = Some ''workflow_dispatch'')
            \<and> (inputs w ''pullRequestNumber'' = [] \<or> inputs w ''pullRequestNumber'' = ''not set''))
   \<and> (inputs w ''token'' \<noteq> [] \<longrightarrow> process_env w ''GITHUB_REPOSITORY'' \<noteq> None \<longrightarrow>
      process_env w ''GITHUB_EVENT_NAME'' = Some e \<longrightarrow>
      e \<noteq> ''pull_request_review'' \<longrightarrow> e \<noteq> ''workflow_run'' \<longrightarrow>
      (v = Index_js \<longrightarrow> e \<noteq> ''workflow_dispatch'') \<longrightarrow>
        main v w = [SetFailed (unsupportedEventMessage e)])"
proof (intro conjI impI)
  show "failuresOf (main Part_000 w) = [] \<and> length (outputsOf (main Part_000 w)) < 3
        \<longleftrightarrow> inputs w ''token'' \<noteq> [] \<and> process_env w ''GITHUB_REPOSITORY'' \<noteq> None
            \<and> process_env w ''GITHUB_EVENT_NAME'' = Some ''workflow_run''
            \<and> (inputs w ''pullRequestNumber'' = [] \<or> inputs w ''pullRequestNumber'' = ''not set'')"
    by (simp only: soft_exit_iff_part000 softExit_part000)
  show "failuresOf (main Index_js w) = [] \<and> length (outputsOf (main Index_js w)) < 3
        \<longleftrightarrow> inputs w ''token'' \<noteq> [] \<and> process_env w ''GITHUB_REPOSITORY'' \<noteq> None
            \<and> (process_env w ''GITHUB_EVENT_NAME'' = Some ''workflow_run''
                \<or> process_env w ''GITHUB_EVENT_NAME'' = Some ''workflow_dispatch'')
            \<and> (inputs w ''pullRequestNumber'' = [] \<or> inputs w ''pullRequestNumber'' = ''not set'')"
    by (simp only: soft_exit_iff_index softExit_index)
qed (rule soft_exit_run unsupported_event_run; assumption)+

theorem soft_exit_only_witness:
  "main Part_000 (exampleWorld (exampleInputs ''approved'') ''workflow_run'' [])
      = [Warning missingNumberWarning]
   \<and> main Index_js (exampleWorld (exampleInputs ''approved'') ''workflow_run'' [])
      = [Warning missingNumberWarning]
   \<and> main Part_000 (exampleWorld (exampleInputs ''approved'') ''push'' [])
      = [SetFailed (unsupportedEventMessage ''push'')]"
  using soft_exit_only [of "exampleWorld (exampleInputs ''approved'') ''workflow_run'' []" Part_000]
        soft_exit_only [of "exampleWorld (exampleInputs ''approved'') ''workflow_run'' []" Index_js]
        soft_exit_only [of "exampleWorld (exampleInputs ''approved'') ''push'' []" Part_000 "''push''"]
  by (simp add: exampleWorld_def exampleInputs_def)

text \<open>
  Claim C7. The two flags are never both true: \<^verbatim>\<open>shouldLabelBeSet\<close> needs the approval and
  the label absent, \<^verbatim>\<open>shouldLabelBeRemoved\<close> needs no approval, the label present and the
  remove-when-missing flag; for a label other than "not set" they are exactly these
  conjunctions. A run of either file sends at most one request that adds or removes the
  label.
\<close>

theorem label_flags_exclusive:
  "\<not> (shouldLabelBeSet l a names \<and> shouldLabelBeRemoved l a names rm)
   \<and> (shouldLabelBeSet l a names \<longrightarrow> a \<and> l \<notin> set names)
   \<and> (shouldLabelBeRemoved l a names rm \<longrightarrow> \<not> a \<and> l \<in> set names \<and> rm)
   \<and> (l \<noteq> ''not set'' \<longrightarrow>
        shouldLabelBeSet l a names = (a \<and> l \<notin> set names)
        \<and> shouldLabelBeRemoved l a names rm = (\<not> a \<and> l \<in> set names \<and> rm))
   \<and> length (filter isLabelAction (requestsOf (main v w))) \<le> 1"
  using main_one_label_action [of v w]
  by (simp add: shouldLabelBeSet_def shouldLabelBeRemoved_def)

theorem label_flags_exclusive_witness:
  "shouldLabelBeSet ''approved'' True [''bug''] \<and> \<not> shouldLabelBeRemoved ''approved'' True [''bug''] True
   \<and> shouldLabelBeRemoved ''approved'' False [''approved''] True
   \<and> \<not> shouldLabelBeSet ''approved'' False [''approved'']"
  using label_flags_exclusive [of "''approved''" True "[''bug'']" True]
        label_flags_exclusive [of "''approved''" False "[''approved'']" True]
  by simp

text \<open>
  Claim C9. When the \<^verbatim>\<open>label\<close> input is empty or is the string "not set", a run of
  either file sends no request that adds a label, removes a label or posts a comment;
  both flags are false whatever the approval decision; and an output
  \<^verbatim>\<open>shouldLabelBeSet\<close> or \<^verbatim>\<open>shouldLabelBeRemoved\<close>, when set, is "false".
\<close>

theorem label_not_set_no_action:
  assumes "inputs w ''label'' = [] \<or> inputs w ''label'' = ''not set''"
  shows "filter isLabelOrComment (requestsOf (main v w)) = []
       \<and> \<not> shouldLabelBeSet (userLabelOf w) a names
       \<and> \<not> shouldLabelBeRemoved (userLabelOf w) a names rm
       \<and> (\<forall>x. (''shouldLabelBeSet'', x) \<in> set (outputsOf (main v w)) \<longrightarrow> x = ''false'')
       \<and> (\<forall>x. (''shouldLabelBeRemoved'', x) \<in> set (outputsOf (main v w)) \<longrightarrow> x = ''false'')"
proof -
  from assms have l: "userLabelOf w = ''not set''" by (simp add: userLabelOf_not_set)
  have flags: "\<not> shouldLabelBeSet (userLabelOf w) a names"
     "\<not> shouldLabelBeRemoved (userLabelOf w) a names rm" for a names rm
    by (simp_all add: l shouldLabelBeSet_def shouldLabelBeRemoved_def)
  have outs: "x = ''false''"
    if "(''shouldLabelBeSet'', x) \<in> set (outputsOf (main v w))
        \<or> (''shouldLabelBeRemoved'', x) \<in> set (outputsOf (main v w))" for x
  proof (cases v)
    case Index_js
    with that main_index_kinds [of w] show ?thesis by auto
  next
    case Part_000
    with that main_part000_kinds [of w] flags show ?thesis
      by (auto simp: String_def)
  qed
  from main_no_label_requests [OF l, of v] flags outs show ?thesis by blast
qed

theorem label_not_set_no_action_witness:
  "filter isLabelOrComment (requestsOf (main Part_000
       (exampleWorld (exampleInputs []) ''pull_request_review'' [mkReview ''alice'' ''APPROVED'']))) = []
   \<and> filter isLabelOrComment (requestsOf (main Part_000
       (exampleWorld (exampleInputs ''not set'') ''pull_request_review'' [mkReview ''alice'' ''APPROVED''])))
      = []"
  using label_not_set_no_action [of "exampleWorld (exampleInputs []) ''pull_request_review'' [mkReview ''alice'' ''APPROVED'']" Part_000]
        label_not_set_no_action [of "exampleWorld (exampleInputs ''not set'') ''pull_request_review'' [mkReview ''alice'' ''APPROVED'']" Part_000]
  by (simp add: exampleWorld_def exampleInputs_def)

text \<open>
  Claim C6. In a run of either file no login is asked for its permission more than once.
  The permission loop sends one request per login it looks up, each login of the reviewer
  list at most once. When committer filtering is on and every lookup succeeds, every
  reviewer is looked up and the loop returns the reviewers whose permission is admin or
  write, each once. When committer filtering is off, no request is sent and the list of
  committers is empty. \<^verbatim>\<open>getReviews\<close> of part_000 returns these committers with the reviews.
\<close>

theorem permission_lookups_once:
  "count_list (requestsOf (main v w)) (GetPermission u) \<le> 1
   \<and> (\<exists>xs. fst (collectCommitters w req reviewers) = map (\<lambda>u. Request (GetPermission u)) xs
          \<and> distinct xs \<and> set xs \<subseteq> set reviewers)
   \<and> ((\<forall>r\<in>set reviewers. permissionKnown w r) \<longrightarrow>
        (\<exists>committers. snd (collectCommitters w True reviewers) = Inr committers
           \<and> distinct committers
           \<and> set committers = {r \<in> set reviewers. isCommitter w r}
           \<and> set (requestsOf (fst (collectCommitters w True reviewers)))
               = GetPermission ` set reviewers))
   \<and> collectCommitters w False reviewers = ([], Inr [])
   \<and> (reviews_list w n = Inr reviews \<longrightarrow>
        (\<forall>r\<in>set reviews. permissionKnown w (login (user r))) \<longrightarrow>
        (\<exists>committers. snd (getReviews Part_000 w n True) = Inr (reviews, committers)
           \<and> distinct committers
           \<and> set committers = {u \<in> (\<lambda>r. login (user r)) ` set reviews. isCommitter w u}))
   \<and> (reviews_list w n = Inr reviews \<longrightarrow>
        getReviews Part_000 w n False = ([Request (ListReviews n)], Inr (reviews, [])))"
  using main_permission_once [of v w u] collectCommitters_trace [of w req reviewers]
    collectCommitters_result [of reviewers w] collectCommitters_off [of w reviewers]
    getReviews_part000_on [of w n reviews] getReviews_part000_off [of w n reviews]
  by (intro conjI impI) (assumption | blast)+

theorem permission_lookups_once_witness:
  "(\<exists>committers.
      snd (collectCommitters (exampleWorld (exampleInputs ''approved'') ''pull_request_review'' [])
             True [''alice'', ''bob'', ''alice'']) = Inr committers
      \<and> distinct committers \<and> set committers = {''alice''})
   \<and> set (requestsOf (fst (collectCommitters
        (exampleWorld (exampleInputs ''approved'') ''pull_request_review'' [])
             True [''alice'', ''bob'', ''alice''])))
       = {GetPermission ''alice'', GetPermission ''bob''}"
proof -
  let ?w = "exampleWorld (exampleInputs ''approved'') ''pull_request_review'' []"
  have known: "\<forall>r\<in>set [''alice'', ''bob'', ''alice'']. permissionKnown ?w r"
    by (simp add: permissionKnown_def exampleWorld_def)
  have com: "{r \<in> set [''alice'', ''bob'', ''alice'']. isCommitter ?w r} = {''alice''}"
    by (auto simp: isCommitter_def exampleWorld_def)
  from permission_lookups_once [of _ ?w _ _ "[''alice'', ''bob'', ''alice'']"] known
  have "\<exists>committers. snd (collectCommitters ?w True [''alice'', ''bob'', ''alice'']) = Inr committers
           \<and> distinct committers
           \<and> set committers = {r \<in> set [''alice'', ''bob'', ''alice'']. isCommitter ?w r}
           \<and> set (requestsOf (fst (collectCommitters ?w True [''alice'', ''bob'', ''alice''])))
               = GetPermission ` set [''alice'', ''bob'', ''alice'']"
    by blast
  then show ?thesis unfolding com by auto
qed

end
